theory Spec2Isabelle
  imports Complex_Main
begin

section \<open>Python values, exceptions and list indexing\<close>

text \<open>
  The exceptions the modelled code raises, as values. \<open>External\<close> stands for whatever a
  collaborator outside the core (frame source, tracker, result writer, drawer, hardware
  interface) raises.
\<close>

datatype error =
    NotImplementedError
  | ValueError
  | IndexError
  | TypeError
  | OverflowError
  | AttributeError
  | AssertionError
  | External string

text \<open>
  Subscripting a Python list: an index \<open>i\<close> with \<open>- len \<le> i < 0\<close> counts from the end,
  anything outside \<open>- len \<le> i < len\<close> raises \<open>IndexError\<close>.
\<close>

definition py_index :: "nat \<Rightarrow> int \<Rightarrow> nat option" where
  "py_index n i =
     (if 0 \<le> i \<and> i < int n then Some (nat i)
      else if i < 0 \<and> - int n \<le> i then Some (nat (i + int n))
      else None)"

definition getitem :: "'a list \<Rightarrow> int \<Rightarrow> error + 'a" where
  "getitem xs i = (case py_index (length xs) i of None \<Rightarrow> Inl IndexError | Some j \<Rightarrow> Inr (xs ! j))"

definition setitem :: "'a list \<Rightarrow> int \<Rightarrow> 'a \<Rightarrow> error + 'a list" where
  "setitem xs i v = (case py_index (length xs) i of None \<Rightarrow> Inl IndexError | Some j \<Rightarrow> Inr (xs[j := v]))"

text \<open>
  A \<open>for\<close> loop over a list whose body may raise: the first exception ends the loop and is
  the loop's outcome.
\<close>

fun foreach :: "('a \<Rightarrow> 's \<Rightarrow> 'e + 's) \<Rightarrow> 'a list \<Rightarrow> 's \<Rightarrow> 'e + 's" where
  "foreach body [] s = Inr s"
| "foreach body (x # xs) s = (case body x s of Inl e \<Rightarrow> Inl e | Inr s' \<Rightarrow> foreach body xs s')"

section \<open>Objects shared by reference during Monitor construction\<close>

text \<open>
  Tracker objects and stimulator objects are identified by reference. Every call of the
  tracker class creates a new tracker object; the stimulators are created by the caller and
  handed to the Monitor in a list. The only attribute of a stimulator that construction
  touches is \<open>_tracker\<close>, written by \<open>bind_tracker\<close> (interactors.py, lines 27-28 and
  103-104).
\<close>

type_synonym tracker_ref = nat
type_synonym stim_ref = nat

record heap =
  n_trackers :: nat
  stim_tracker :: "stim_ref \<Rightarrow> tracker_ref option"

definition bind_tracker :: "stim_ref \<Rightarrow> tracker_ref \<Rightarrow> heap \<Rightarrow> heap" where
  "bind_tracker s t h = h\<lparr>stim_tracker := (stim_tracker h)(s \<mapsto> t)\<rparr>"

text \<open>
  Modelled from the spec: the ROI class (ethoscope.core.roi is not among the sources). An
  ROI is a stable integer identifier together with its geometry.
\<close>

record 'g roi =
  idx :: int
  geometry :: 'g

text \<open>
  Modelled from the spec: the TrackingUnit class and its constructor (tracking_unit.py is
  not among the sources). A unit holds a reference to its ROI, owns a tracker object created
  at construction, and holds at most one stimulator. The constructor binds the stimulator to
  the tracker it is to observe: the unit's own tracker by default, the tracker passed as
  \<open>tracker=\<close> otherwise. The unit's own positional tracker \<open>_tracker\<close> is always its own.
\<close>

record 'g tracking_unit =
  tu_roi :: "'g roi"
  tu_tracker :: tracker_ref
  tu_stimulator :: "stim_ref option"

definition TrackingUnit ::
  "'g roi \<Rightarrow> stim_ref option \<Rightarrow> tracker_ref option \<Rightarrow> heap \<Rightarrow> 'g tracking_unit \<times> heap" where
  "TrackingUnit r stimulator tracker h =
     (let own = n_trackers h;
          h1 = h\<lparr>n_trackers := Suc own\<rparr>;
          observed = (case tracker of None \<Rightarrow> own | Some t \<Rightarrow> t);
          h2 = (case stimulator of None \<Rightarrow> h1 | Some s \<Rightarrow> bind_tracker s observed h1)
      in (\<lparr>tu_roi = r, tu_tracker = own, tu_stimulator = stimulator\<rparr>, h2))"

section \<open>Monitor\<close>

text \<open>
  What one pull from the frame source gives: a time stamp and a frame, or an exception.
  Exhaustion is the end of the list.
\<close>

datatype 'f pull = Frame real 'f | SourceRaises error

record ('g, 'f, 'p) monitor =
  camera :: "'f pull list"
  last_frame_idx :: int
  force_stop :: bool
  last_positions :: "int \<rightharpoonup> 'p list"
  last_time_stamp :: real
  is_running :: bool
  unit_trackers :: "'g tracking_unit list"
  frame_buffer :: "'f option"
  last_t :: "real option"

subsection \<open>Construction and yoke resolution (monitor.py, lines 27-107)\<close>

text \<open>
  The \<open>yoke\<close> argument. The code distinguishes \<open>None\<close>, the empty string, and anything
  else, which it hands to \<open>json.loads\<close>. An argument that is no text (a dictionary, say)
  raises \<open>TypeError\<close> there; a string that \<open>json.loads\<close> rejects raises \<open>ValueError\<close>; one
  that decodes to something other than a dictionary raises \<open>AttributeError\<close> at
  \<open>yoke.values()\<close>; one that decodes to a dictionary is given here by the dictionary's
  items in iteration order (\<open>values()\<close> and \<open>items()\<close> of one dictionary iterate in the
  same order).

  Each key and value of the dictionary is later passed to \<open>int\<close>, and is given here by what
  \<open>int\<close> does with it. \<open>Numeric k\<close> is a value \<open>int\<close> converts to \<open>k\<close>: a string holding
  an integer literal, an integer, a boolean, or a finite float (truncated). \<open>NonNumeric\<close>
  is a value for which \<open>int\<close> raises \<open>ValueError\<close>: any other string, or the float
  \<open>NaN\<close>. \<open>NotConvertible\<close> is a value for which it raises \<open>TypeError\<close>: \<open>null\<close>, a list
  or an object. \<open>Infinite\<close> is a float infinity, for which it raises \<open>OverflowError\<close>.
  The keys of a decoded dictionary are strings, so only the first two occur as keys.
\<close>

datatype id_value = Numeric int | NonNumeric | NotConvertible | Infinite

datatype yoke_arg =
    YokeNone
  | YokeEmpty
  | YokeNotText
  | YokeUndecodable
  | YokeNotDict
  | YokeDict "(id_value \<times> id_value) list"

definition py_int :: "id_value \<Rightarrow> error + int" where
  "py_int s =
     (case s of
        Numeric k \<Rightarrow> Inr k
      | NonNumeric \<Rightarrow> Inl ValueError
      | NotConvertible \<Rightarrow> Inl TypeError
      | Infinite \<Rightarrow> Inl OverflowError)"

text \<open>
  The list comprehensions of lines 69 and 74: one unit per ROI, built in order, each with
  the stimulator zipped to it.
\<close>

fun build_units ::
  "('g roi \<times> stim_ref option) list \<Rightarrow> heap \<Rightarrow> 'g tracking_unit list \<times> heap" where
  "build_units [] h = ([], h)"
| "build_units ((r, stim) # ps) h =
     (let (u, h1) = TrackingUnit r stim None h;
          (us, h2) = build_units ps h1
      in (u # us, h2))"

text \<open>
  The state of the three loops of lines 77-102: the list under construction, whose entries
  are \<open>None\<close> until resolved, and the heap. An exception is returned together with the heap
  at the moment it is raised.
\<close>

type_synonym 'g resolving = "'g tracking_unit option list \<times> heap"

text \<open>Lines 78-86: the body of the loop over \<open>yoke.values()\<close>.\<close>

definition focal_step ::
  "'g roi list \<Rightarrow> stim_ref list \<Rightarrow> id_value \<Rightarrow> 'g resolving \<Rightarrow> (error \<times> heap) + 'g resolving" where
  "focal_step rois stimulators f st =
     (case st of (uts, h) \<Rightarrow>
      (case py_int f of Inl e \<Rightarrow> Inl (e, h) | Inr ff \<Rightarrow>
       (case getitem uts (ff - 1) of
          Inl e \<Rightarrow> Inl (e, h)
        | Inr (Some u) \<Rightarrow> Inr (uts, h)
        | Inr None \<Rightarrow>
           (case getitem rois (ff - 1) of Inl e \<Rightarrow> Inl (e, h) | Inr r \<Rightarrow>
            (case getitem stimulators (ff - 1) of Inl e \<Rightarrow> Inl (e, h) | Inr s \<Rightarrow>
             (case TrackingUnit r (Some s) None h of (u, h1) \<Rightarrow>
              (case setitem uts (ff - 1) (Some u) of
                 Inl e \<Rightarrow> Inl (e, h1)
               | Inr uts1 \<Rightarrow> Inr (uts1, h1))))))))"

text \<open>
  Lines 88-97: the body of the loop over \<open>yoke.items()\<close>. The arguments of the constructor
  are evaluated left to right before the constructor runs and before the result is stored;
  \<open>_tracker\<close> of an entry that is still \<open>None\<close> raises \<open>AttributeError\<close>.
\<close>

definition yoked_step ::
  "'g roi list \<Rightarrow> stim_ref list \<Rightarrow> id_value \<times> id_value \<Rightarrow> 'g resolving \<Rightarrow> (error \<times> heap) + 'g resolving" where
  "yoked_step rois stimulators yf st =
     (case st of (uts, h) \<Rightarrow>
      (case py_int (fst yf) of Inl e \<Rightarrow> Inl (e, h) | Inr yy \<Rightarrow>
       (case py_int (snd yf) of Inl e \<Rightarrow> Inl (e, h) | Inr ff \<Rightarrow>
        (case getitem rois (yy - 1) of Inl e \<Rightarrow> Inl (e, h) | Inr r \<Rightarrow>
         (case getitem stimulators (yy - 1) of Inl e \<Rightarrow> Inl (e, h) | Inr s \<Rightarrow>
          (case getitem uts (ff - 1) of
             Inl e \<Rightarrow> Inl (e, h)
           | Inr None \<Rightarrow> Inl (AttributeError, h)
           | Inr (Some focal) \<Rightarrow>
              (case TrackingUnit r (Some s) (Some (tu_tracker focal)) h of (u, h1) \<Rightarrow>
               (case setitem uts (yy - 1) (Some u) of
                  Inl e \<Rightarrow> Inl (e, h1)
                | Inr uts1 \<Rightarrow> Inr (uts1, h1)))))))))"

text \<open>Lines 100-102: the body of the loop over \<open>enumerate(self._unit_trackers)\<close>.\<close>

definition default_step ::
  "'g roi list \<Rightarrow> stim_ref list \<Rightarrow> nat \<Rightarrow> 'g resolving \<Rightarrow> (error \<times> heap) + 'g resolving" where
  "default_step rois stimulators i st =
     (case st of (uts, h) \<Rightarrow>
      (case getitem uts (int i) of
         Inl e \<Rightarrow> Inl (e, h)
       | Inr (Some u) \<Rightarrow> Inr (uts, h)
       | Inr None \<Rightarrow>
          (case getitem rois (int i) of Inl e \<Rightarrow> Inl (e, h) | Inr r \<Rightarrow>
           (case getitem stimulators (int i) of Inl e \<Rightarrow> Inl (e, h) | Inr s \<Rightarrow>
            (case TrackingUnit r (Some s) None h of (u, h1) \<Rightarrow>
             (case setitem uts (int i) (Some u) of
                Inl e \<Rightarrow> Inl (e, h1)
              | Inr uts1 \<Rightarrow> Inr (uts1, h1)))))))"

text \<open>
  Lines 76-104. The closing assertion reads \<open>_tracker\<close> of every entry, so an entry that is
  still \<open>None\<close> raises \<open>AttributeError\<close>; a unit's own tracker is never \<open>None\<close>, so the
  asserted condition itself holds of every unit.
\<close>

definition resolve_yoke ::
  "'g roi list \<Rightarrow> stim_ref list \<Rightarrow> (id_value \<times> id_value) list \<Rightarrow> heap \<Rightarrow>
     (error \<times> heap) + ('g tracking_unit list \<times> heap)" where
  "resolve_yoke rois stimulators yoke h =
     (case foreach (focal_step rois stimulators) (map snd yoke) (map (\<lambda>r. None) rois, h) of
        Inl e \<Rightarrow> Inl e
      | Inr st1 \<Rightarrow>
         (case foreach (yoked_step rois stimulators) yoke st1 of
            Inl e \<Rightarrow> Inl e
          | Inr st2 \<Rightarrow>
             (case foreach (default_step rois stimulators) [0 ..< length (fst st2)] st2 of
                Inl e \<Rightarrow> Inl e
              | Inr (uts, h3) \<Rightarrow>
                 (case those uts of
                    None \<Rightarrow> Inl (AttributeError, h3)
                  | Some us \<Rightarrow> Inr (us, h3)))))"

definition new_monitor :: "'f pull list \<Rightarrow> 'g tracking_unit list \<Rightarrow> ('g, 'f, 'p) monitor" where
  "new_monitor cam us =
     \<lparr>camera = cam, last_frame_idx = 0, force_stop = False, last_positions = Map.empty,
      last_time_stamp = 0, is_running = False, unit_trackers = us,
      frame_buffer = None, last_t = None\<rparr>"

text \<open>
  \<open>Monitor.__init__\<close>. The result is the exception raised, or the constructed Monitor; in
  both cases together with the heap as construction leaves it.
\<close>

definition Monitor_init ::
  "'f pull list \<Rightarrow> 'g roi list option \<Rightarrow> stim_ref list option \<Rightarrow> yoke_arg \<Rightarrow> heap \<Rightarrow>
     (error \<times> heap) + (('g, 'f, 'p) monitor \<times> heap)" where
  "Monitor_init cam rois stimulators yoke h =
     (case rois of
        None \<Rightarrow> Inl (NotImplementedError, h)
      | Some rs \<Rightarrow>
         (case stimulators of
            None \<Rightarrow>
              (case build_units (map (\<lambda>r. (r, None)) rs) h of (us, h1) \<Rightarrow>
                 Inr (new_monitor cam us, h1))
          | Some ss \<Rightarrow>
              if length ss = length rs then
                (case yoke of
                   YokeNone \<Rightarrow>
                     (case build_units (zip rs (map Some ss)) h of (us, h1) \<Rightarrow>
                        Inr (new_monitor cam us, h1))
                 | YokeEmpty \<Rightarrow>
                     (case build_units (zip rs (map Some ss)) h of (us, h1) \<Rightarrow>
                        Inr (new_monitor cam us, h1))
                 | YokeNotText \<Rightarrow> Inl (TypeError, h)
                 | YokeUndecodable \<Rightarrow> Inl (ValueError, h)
                 | YokeNotDict \<Rightarrow> Inl (AttributeError, h)
                 | YokeDict d \<Rightarrow>
                     (case resolve_yoke rs ss d h of
                        Inl e \<Rightarrow> Inl e
                      | Inr (us, h1) \<Rightarrow> Inr (new_monitor cam us, h1)))
              else Inl (ValueError, h)))"

subsection \<open>stop (monitor.py, lines 134-138)\<close>

definition stop :: "('g, 'f, 'p) monitor \<Rightarrow> ('g, 'f, 'p) monitor" where
  "stop m = m\<lparr>force_stop := True\<rparr>"

subsection \<open>run (monitor.py, lines 140-191)\<close>

text \<open>
  Collaborators outside the Monitor are parameters of the model, each giving the outcome of
  a call: the rows or the exception of \<open>track\<close>, the positions or the exception of
  \<open>get_last_positions\<close> (both methods of TrackingUnit, whose source is not available),
  and for the optional result writer and drawer whether the call raises.
\<close>

record ('g, 'f, 'r) result_writer =
  rw_write :: "real \<Rightarrow> 'g roi \<Rightarrow> 'r list \<Rightarrow> error option"
  rw_flush :: "real \<Rightarrow> 'f \<Rightarrow> error option"

type_synonym ('g, 'f, 'p) drawer =
  "'f \<Rightarrow> (int \<rightharpoonup> 'p list) \<Rightarrow> 'g tracking_unit list \<Rightarrow> error option"

text \<open>Lines 164-176, the loop over the units for one frame.\<close>

fun track_units ::
  "('g tracking_unit \<Rightarrow> real \<Rightarrow> 'f \<Rightarrow> error + 'r list) \<Rightarrow>
   ('g tracking_unit \<Rightarrow> real \<Rightarrow> 'f \<Rightarrow> error + 'p list) \<Rightarrow>
   ('g, 'f, 'r) result_writer option \<Rightarrow> real \<Rightarrow> 'f \<Rightarrow> 'g tracking_unit list \<Rightarrow>
   ('g, 'f, 'p) monitor \<Rightarrow> error option \<times> ('g, 'f, 'p) monitor" where
  "track_units track get_last_positions rw t frame [] m = (None, m)"
| "track_units track get_last_positions rw t frame (track_u # rest) m =
     (case track track_u t frame of
        Inl e \<Rightarrow> (Some e, m)
      | Inr data_rows \<Rightarrow>
          if length data_rows = 0 then
            track_units track get_last_positions rw t frame rest
              (m\<lparr>last_positions := (last_positions m)(idx (tu_roi track_u) \<mapsto> [])\<rparr>)
          else
            (case get_last_positions track_u t frame of
               Inl e \<Rightarrow> (Some e, m)
             | Inr abs_pos \<Rightarrow>
                 (let m1 = m\<lparr>last_positions := (last_positions m)(idx (tu_roi track_u) \<mapsto> abs_pos)\<rparr>
                  in case rw of
                       None \<Rightarrow> track_units track get_last_positions rw t frame rest m1
                     | Some w \<Rightarrow>
                         (case rw_write w t (tu_roi track_u) data_rows of
                            Some e \<Rightarrow> (Some e, m1)
                          | None \<Rightarrow> track_units track get_last_positions rw t frame rest m1))))"

text \<open>
  Lines 154-183, the loop over the frame source, \<open>i\<close> being the counter of \<open>enumerate\<close>.
  \<open>stop_called i\<close> says whether another thread has called \<open>stop()\<close> while the loop was
  waiting for pull number \<open>i\<close>. The outcome is \<open>None\<close> when the loop ends by exhaustion or
  by \<open>break\<close>, and the exception otherwise.
\<close>

fun run_loop ::
  "('g tracking_unit \<Rightarrow> real \<Rightarrow> 'f \<Rightarrow> error + 'r list) \<Rightarrow>
   ('g tracking_unit \<Rightarrow> real \<Rightarrow> 'f \<Rightarrow> error + 'p list) \<Rightarrow>
   (nat \<Rightarrow> bool) \<Rightarrow> ('g, 'f, 'r) result_writer option \<Rightarrow> ('g, 'f, 'p) drawer option \<Rightarrow>
   nat \<Rightarrow> 'f pull list \<Rightarrow> ('g, 'f, 'p) monitor \<Rightarrow> error option \<times> ('g, 'f, 'p) monitor" where
  "run_loop track get_last_positions stop_called rw dr i [] m0 =
     (None, if stop_called i then stop m0 else m0)"
| "run_loop track get_last_positions stop_called rw dr i (SourceRaises e # pulls) m0 =
     (Some e, if stop_called i then stop m0 else m0)"
| "run_loop track get_last_positions stop_called rw dr i (Frame t frame # pulls) m0 =
     (let m = (if stop_called i then stop m0 else m0) in
      if force_stop m then (None, m)
      else
        (let m1 = m\<lparr>last_frame_idx := int i, last_time_stamp := t, frame_buffer := Some frame\<rparr>
         in case track_units track get_last_positions rw t frame (unit_trackers m1) m1 of
              (Some e, m2) \<Rightarrow> (Some e, m2)
            | (None, m2) \<Rightarrow>
                (case (case rw of None \<Rightarrow> None | Some w \<Rightarrow> rw_flush w t frame) of
                   Some e \<Rightarrow> (Some e, m2)
                 | None \<Rightarrow>
                     (case (case dr of None \<Rightarrow> None
                                     | Some draw \<Rightarrow> draw frame (last_positions m2) (unit_trackers m2)) of
                        Some e \<Rightarrow> (Some e, m2)
                      | None \<Rightarrow>
                          run_loop track get_last_positions stop_called rw dr (Suc i) pulls
                            (m2\<lparr>last_t := Some t\<rparr>)))))"

text \<open>
  \<open>Monitor.run\<close>: the \<open>try\<close> block sets the running flag and loops, the \<open>except\<close> clause
  re-raises, the \<open>finally\<close> clause clears the flag. The result is the exception that leaves
  \<open>run\<close>, if any, and the Monitor afterwards.
\<close>

definition run ::
  "('g tracking_unit \<Rightarrow> real \<Rightarrow> 'f \<Rightarrow> error + 'r list) \<Rightarrow>
   ('g tracking_unit \<Rightarrow> real \<Rightarrow> 'f \<Rightarrow> error + 'p list) \<Rightarrow>
   (nat \<Rightarrow> bool) \<Rightarrow> ('g, 'f, 'r) result_writer option \<Rightarrow> ('g, 'f, 'p) drawer option \<Rightarrow>
   ('g, 'f, 'p) monitor \<Rightarrow> error option \<times> ('g, 'f, 'p) monitor" where
  "run track get_last_positions stop_called result_writer drawer m =
     (case run_loop track get_last_positions stop_called result_writer drawer 0 (camera m)
             (m\<lparr>is_running := True\<rparr>) of
        (outcome, m1) \<Rightarrow> (outcome, m1\<lparr>is_running := False\<rparr>))"

section \<open>Interactors (interactors.py)\<close>

datatype pyval = PyBool bool | PyInt int | PyFloat real

type_synonym kwargs = "string \<rightharpoonup> pyval"

text \<open>
  What an interactor reads from the tracker bound to it: the history of positions and of
  their time stamps. \<open>'T\<close> below is always a function from tracker references to the
  tracker objects as they are at the moment of the call.
\<close>

record position =
  pos_x :: real
  pos_y :: real
  pos_roi_idx :: int

record tracker_obj =
  positions :: "position list"
  times :: "real list"

text \<open>
  Both base classes declare \<open>_tracker = None\<close> at class level and the same \<open>bind_tracker\<close>;
  the common part is one record, which the classes extend.
\<close>

record interactor =
  tracker :: "tracker_ref option"

subsection \<open>BaseInteractorSync and SleepDepInteractor (lines 10-78)\<close>

text \<open>
  \<open>__call__\<close> of the synchronous base class. The subclass hooks \<open>_run\<close> and \<open>_interact\<close>
  are parameters: \<open>_run\<close> returns its decision and parameter dictionary or raises, and may
  update the interactor; \<open>_interact\<close> acts on the world outside (\<open>'w\<close>) and may raise.
\<close>

definition BaseInteractorSync_call ::
  "('a interactor_scheme \<Rightarrow> (error + bool \<times> kwargs) \<times> 'a interactor_scheme) \<Rightarrow>
   (kwargs \<Rightarrow> 'w \<Rightarrow> error option \<times> 'w) \<Rightarrow>
   'a interactor_scheme \<Rightarrow> 'w \<Rightarrow> (error + kwargs) \<times> 'a interactor_scheme \<times> 'w" where
  "BaseInteractorSync_call run_hook interact_hook self w =
     (case tracker self of
        None \<Rightarrow> (Inl ValueError, self, w)
      | Some tr \<Rightarrow>
          (case run_hook self of
             (Inl e, self1) \<Rightarrow> (Inl e, self1, w)
           | (Inr (interact, result), self1) \<Rightarrow>
               if interact then
                 (case interact_hook result w of
                    (Some e, w1) \<Rightarrow> (Inl e, self1, w1)
                  | (None, w1) \<Rightarrow> (Inr (result(''interact'' \<mapsto> PyBool interact)), self1, w1))
               else (Inr (result(''interact'' \<mapsto> PyBool interact)), self1, w)))"

record SleepDepInteractor = interactor +
  sd_t0 :: "real option"
  sd_channel :: int
  sd_distance_threshold :: real
  sd_inactivity_time_threshold :: real

definition SleepDepInteractor_init :: "int \<Rightarrow> SleepDepInteractor" where
  "SleepDepInteractor_init channel =
     \<lparr>tracker = None, sd_t0 = None, sd_channel = channel,
      sd_distance_threshold = 1 / 100, sd_inactivity_time_threshold = 90\<rparr>"

text \<open>
  \<open>SleepDepInteractor._run\<close>, lines 50-78. Coordinates and times are real numbers here;
  \<open>np.abs\<close> of a complex number is its modulus.
\<close>

definition SleepDepInteractor_run ::
  "(tracker_ref \<Rightarrow> tracker_obj) \<Rightarrow> SleepDepInteractor \<Rightarrow>
     (error + bool \<times> kwargs) \<times> SleepDepInteractor" where
  "SleepDepInteractor_run T self =
     (case tracker self of
        None \<Rightarrow> (Inl AttributeError, self)
      | Some tr \<Rightarrow>
          (let ps = positions (T tr); t = times (T tr);
               kw = [''channel'' \<mapsto> PyInt (sd_channel self)]
           in if length ps < 2 then (Inr (False, kw), self)
              else
                (case getitem ps (- 1) of Inl e \<Rightarrow> (Inl e, self) | Inr tail_m \<Rightarrow>
                 (case getitem ps (- 2) of Inl e \<Rightarrow> (Inl e, self) | Inr tail_mm \<Rightarrow>
                  (let xy_m = Complex (pos_x tail_m) (pos_y tail_m);
                       xy_mm = Complex (pos_x tail_mm) (pos_y tail_mm)
                   in if cmod (xy_m - xy_mm) < sd_distance_threshold self then
                        (case getitem t (- 1) of Inl e \<Rightarrow> (Inl e, self) | Inr now \<Rightarrow>
                         (case sd_t0 self of
                            None \<Rightarrow> (Inr (False, kw), self\<lparr>sd_t0 := Some now\<rparr>)
                          | Some t0 \<Rightarrow>
                              if now - t0 > sd_inactivity_time_threshold self
                              then (Inr (True, kw), self\<lparr>sd_t0 := None\<rparr>)
                              else (Inr (False, kw), self)))
                      else (Inr (False, kw), self\<lparr>sd_t0 := None\<rparr>))))))"

subsection \<open>BaseInteractor and its background process (lines 83-121)\<close>

text \<open>
  Process objects of \<open>multiprocessing\<close>. A process is created not started, runs after
  \<open>start()\<close> until it exits (by returning or by crashing), and \<open>is_alive()\<close> holds exactly
  while it runs. The table lists the process objects one interactor has referred to, entry
  0 being the never-started \<open>multiprocessing.Process()\<close> of the class attribute.
\<close>

datatype proc_state = NotStarted | Running | Exited

datatype target = Beep | OtherTarget nat

record process =
  p_state :: proc_state
  p_target :: "target option"
  p_kwargs :: kwargs

record BaseInteractor = interactor +
  subprocess :: nat
  target :: "target option"

definition is_alive :: "process list \<Rightarrow> nat \<Rightarrow> bool" where
  "is_alive procs p = (p < length procs \<and> p_state (procs ! p) = Running)"

definition start :: "process list \<Rightarrow> nat \<Rightarrow> process list" where
  "start procs p = procs[p := (procs ! p)\<lparr>p_state := Running\<rparr>]"

text \<open>\<open>_interact_async\<close>, lines 110-121.\<close>

definition interact_async ::
  "kwargs \<Rightarrow> 'a BaseInteractor_scheme \<Rightarrow> process list \<Rightarrow>
     error option \<times> 'a BaseInteractor_scheme \<times> process list" where
  "interact_async kw self procs =
     (if is_alive procs (subprocess self) then (None, self, procs)
      else
        (case target self of
           None \<Rightarrow> (Some NotImplementedError, self, procs)
         | Some tg \<Rightarrow>
             (let p = length procs;
                  procs1 = procs @ [\<lparr>p_state = NotStarted, p_target = Some tg, p_kwargs = kw\<rparr>];
                  self1 = self\<lparr>subprocess := p\<rparr>
              in (None, self1, start procs1 (subprocess self1)))))"

text \<open>\<open>__call__\<close> of the asynchronous base class, lines 90-100.\<close>

definition BaseInteractor_call ::
  "('a BaseInteractor_scheme \<Rightarrow> (error + bool \<times> kwargs) \<times> 'a BaseInteractor_scheme) \<Rightarrow>
   'a BaseInteractor_scheme \<Rightarrow> process list \<Rightarrow>
     (error + kwargs) \<times> 'a BaseInteractor_scheme \<times> process list" where
  "BaseInteractor_call run_hook self procs =
     (case tracker self of
        None \<Rightarrow> (Inl ValueError, self, procs)
      | Some tr \<Rightarrow>
          (case run_hook self of
             (Inl e, self1) \<Rightarrow> (Inl e, self1, procs)
           | (Inr (interact, result), self1) \<Rightarrow>
               if interact then
                 (case interact_async result self1 procs of
                    (Some e, self2, procs2) \<Rightarrow> (Inl e, self2, procs2)
                  | (None, self2, procs2) \<Rightarrow>
                      (Inr (result(''interact'' \<mapsto> PyBool interact)), self2, procs2))
               else (Inr (result(''interact'' \<mapsto> PyBool interact)), self1, procs)))"

text \<open>
  The life of one asynchronous interactor as a sequence of events: the frame loop reaches
  \<open>_interact_async\<close> with a decision to act (\<open>Trigger\<close>), or a process exits (\<open>Finish\<close>),
  which the operating system decides and not the interactor. An exception raised by
  \<open>_interact_async\<close> leaves the interactor as it is.
\<close>

datatype event = Trigger kwargs | Finish nat

definition finish :: "process list \<Rightarrow> nat \<Rightarrow> process list" where
  "finish procs p = (if is_alive procs p then procs[p := (procs ! p)\<lparr>p_state := Exited\<rparr>] else procs)"

fun step :: "event \<Rightarrow> BaseInteractor \<times> process list \<Rightarrow> BaseInteractor \<times> process list" where
  "step (Trigger kw) (self, procs) = snd (interact_async kw self procs)"
| "step (Finish p) (self, procs) = (self, finish procs p)"

definition exec :: "event list \<Rightarrow> BaseInteractor \<times> process list \<Rightarrow> BaseInteractor \<times> process list" where
  "exec evs st = fold step evs st"

definition new_interactor :: "target option \<Rightarrow> BaseInteractor \<times> process list" where
  "new_interactor tg =
     (\<lparr>tracker = None, subprocess = 0, target = tg\<rparr>,
      [\<lparr>p_state = NotStarted, p_target = None, p_kwargs = Map.empty\<rparr>])"

definition in_flight :: "process list \<Rightarrow> nat" where
  "in_flight procs = length (filter (\<lambda>p. p_state p = Running) procs)"

subsection \<open>SystemPlaySoundOnStop (lines 139-187)\<close>

record SystemPlaySoundOnStop = BaseInteractor +
  ps_t0 :: "real option"
  ps_freq :: real
  ps_distance_threshold :: real
  ps_inactivity_time_threshold :: real
  ps_rest_time :: real

definition SystemPlaySoundOnStop_init :: "real \<Rightarrow> SystemPlaySoundOnStop" where
  "SystemPlaySoundOnStop_init freq =
     \<lparr>tracker = None, subprocess = 0, target = Some Beep,
      ps_t0 = None, ps_freq = freq, ps_distance_threshold = 2 / 10,
      ps_inactivity_time_threshold = 30, ps_rest_time = 60\<rparr>"

text \<open>
  The loop of \<open>_cumulative_dist\<close>, lines 154-163, over the reversed history: \<open>lag\<close> is
  \<open>(px_lag, py_lag)\<close>, \<open>None\<close> before the first item.
\<close>

fun cum_dist_loop ::
  "real \<Rightarrow> real \<Rightarrow> (real \<times> position) list \<Rightarrow> (real \<times> real) option \<Rightarrow> real \<Rightarrow> real" where
  "cum_dist_loop now thr [] lag cum_dist = cum_dist"
| "cum_dist_loop now thr ((t, p) # rest) None cum_dist =
     cum_dist_loop now thr rest (Some (pos_x p, pos_y p)) cum_dist"
| "cum_dist_loop now thr ((t, p) # rest) (Some (px_lag, py_lag)) cum_dist =
     (let cum_dist1 = cum_dist + sqrt ((px_lag - pos_x p) ^ 2 + (py_lag - pos_y p) ^ 2)
      in if now - t > thr then cum_dist1
         else cum_dist_loop now thr rest (Some (pos_x p, pos_y p)) cum_dist1)"

definition cumulative_dist ::
  "SystemPlaySoundOnStop \<Rightarrow> real list \<Rightarrow> position list \<Rightarrow> error + real" where
  "cumulative_dist self ts ps =
     (case getitem ts (- 1) of
        Inl e \<Rightarrow> Inl e
      | Inr now \<Rightarrow>
          Inr (cum_dist_loop now (ps_inactivity_time_threshold self) (rev (zip ts ps)) None 0))"

text \<open>
  \<open>SystemPlaySoundOnStop._run\<close>, lines 166-187. The \<open>print\<close> of line 175 reads
  \<open>positions[-1]\<close> and so raises on an empty position history.
\<close>

definition SystemPlaySoundOnStop_run ::
  "(tracker_ref \<Rightarrow> tracker_obj) \<Rightarrow> SystemPlaySoundOnStop \<Rightarrow>
     (error + bool \<times> kwargs) \<times> SystemPlaySoundOnStop" where
  "SystemPlaySoundOnStop_run T self =
     (case tracker self of
        None \<Rightarrow> (Inl AttributeError, self)
      | Some tr \<Rightarrow>
          (let ps = positions (T tr); ts = times (T tr);
               kw = [''freq'' \<mapsto> PyFloat (ps_freq self)]
           in case getitem ts (- 1) of Inl e \<Rightarrow> (Inl e, self) | Inr now \<Rightarrow>
              if length ts < 2 \<or> now - ts ! 0 < ps_inactivity_time_threshold self
              then (Inr (False, kw), self)
              else
                (case cumulative_dist self ts ps of Inl e \<Rightarrow> (Inl e, self) | Inr cum_dist \<Rightarrow>
                 (case getitem ps (- 1) of Inl e \<Rightarrow> (Inl e, self) | Inr last_p \<Rightarrow>
                    if cum_dist > ps_distance_threshold self then (Inr (False, kw), self)
                    else
                      (case ps_t0 self of
                         None \<Rightarrow> (Inr (True, kw), self\<lparr>ps_t0 := Some now\<rparr>)
                       | Some t0 \<Rightarrow>
                           if now - t0 < ps_rest_time self then (Inr (False, kw), self)
                           else (Inr (True, kw), self\<lparr>ps_t0 := Some now\<rparr>))))))"

section \<open>Auxiliary notions for the statements below\<close>

text \<open>
  A unit passes a frame when the Monitor's work on it raises nothing: \<open>track\<close> returns,
  and either it returns no rows or \<open>get_last_positions\<close> returns and the result writer,
  if there is one, accepts the rows.
\<close>

definition unit_passes ::
  "('g tracking_unit \<Rightarrow> real \<Rightarrow> 'f \<Rightarrow> error + 'r list) \<Rightarrow>
   ('g tracking_unit \<Rightarrow> real \<Rightarrow> 'f \<Rightarrow> error + 'p list) \<Rightarrow>
   ('g, 'f, 'r) result_writer option \<Rightarrow> real \<Rightarrow> 'f \<Rightarrow> 'g tracking_unit \<Rightarrow> bool" where
  "unit_passes track get_last_positions rw t frame v =
     (case track v t frame of
        Inl e \<Rightarrow> False
      | Inr rows \<Rightarrow>
          rows = [] \<or>
          (case get_last_positions v t frame of
             Inl e \<Rightarrow> False
           | Inr p \<Rightarrow> (case rw of None \<Rightarrow> True | Some w \<Rightarrow> rw_write w t (tu_roi v) rows = None)))"

text \<open>
  What holds of an asynchronous interactor and its processes at every moment: the
  interactor refers to a process of the table, no other process of the table is running,
  and a process can only have been started if a target is defined.
\<close>

definition proc_inv :: "BaseInteractor \<times> process list \<Rightarrow> bool" where
  "proc_inv st = (case st of (self, procs) \<Rightarrow>
      subprocess self < length procs \<and>
      (\<forall>p < length procs. p \<noteq> subprocess self \<longrightarrow> p_state (procs ! p) \<noteq> Running) \<and>
      ((\<exists>p < length procs. p_state (procs ! p) \<noteq> NotStarted) \<longrightarrow> target self \<noteq> None))"


definition slot :: "nat \<Rightarrow> id_value \<Rightarrow> nat option" where
  "slot n s = (case s of Numeric k \<Rightarrow> py_index n (k - 1) | _ \<Rightarrow> None)"

definition valid_id :: "nat \<Rightarrow> id_value \<Rightarrow> bool" where
  "valid_id n s = (case s of Numeric k \<Rightarrow> 1 \<le> k \<and> k \<le> int n | _ \<Rightarrow> False)"


text \<open>
  The effect of constructing the unit of position \<open>j\<close> with its stimulator bound to
  tracker \<open>t\<close> and storing it in the list; and what holds of the list under construction
  at every moment: it has one entry per ROI, and an entry that is resolved holds the ROI and
  the stimulator of its position and a tracker that has been allocated.
\<close>

definition install ::
  "'g roi list \<Rightarrow> stim_ref list \<Rightarrow> nat \<Rightarrow> tracker_ref \<Rightarrow> 'g resolving \<Rightarrow> 'g resolving" where
  "install rs ss j t st =
     (case st of (uts, h) \<Rightarrow>
        (uts[j := Some \<lparr>tu_roi = rs ! j, tu_tracker = n_trackers h, tu_stimulator = Some (ss ! j)\<rparr>],
         h\<lparr>n_trackers := Suc (n_trackers h), stim_tracker := (stim_tracker h)(ss ! j \<mapsto> t)\<rparr>))"

definition wf_state :: "'g roi list \<Rightarrow> stim_ref list \<Rightarrow> 'g resolving \<Rightarrow> bool" where
  "wf_state rs ss st =
     (length (fst st) = length rs \<and>
      (\<forall>i < length rs. \<forall>u. fst st ! i = Some u \<longrightarrow>
           tu_roi u = rs ! i \<and> tu_stimulator u = Some (ss ! i) \<and> tu_tracker u < n_trackers (snd st)))"

section \<open>Properties of Monitor.stop\<close>

text \<open>
  Claim C9. For every Monitor state, \<open>stop()\<close> sets the \<open>force_stop\<close> flag to true and
  leaves every other field of the Monitor (\<open>last_positions\<close>, \<open>last_frame_idx\<close>,
  \<open>last_time_stamp\<close>, \<open>is_running\<close>, and the rest) as it was. The method has no return
  value: the model's result is the Monitor afterwards and nothing else.
\<close>

theorem stop_only_sets_force_stop:
  "force_stop (stop m) = True \<and> last_positions (stop m) = last_positions m \<and>
   last_frame_idx (stop m) = last_frame_idx m \<and> last_time_stamp (stop m) = last_time_stamp m \<and>
   is_running (stop m) = is_running m \<and> camera (stop m) = camera m \<and>
   unit_trackers (stop m) = unit_trackers m \<and> frame_buffer (stop m) = frame_buffer m \<and>
   last_t (stop m) = last_t m"
  by (simp add: stop_def)

section \<open>Properties of Monitor construction\<close>

text \<open>
  Claim C8. If a list of stimulators is supplied whose length differs from the number of
  ROIs, construction raises (the \<open>ValueError\<close> of line 107), whatever the yoke argument,
  and the heap is as before: no TrackingUnit has been built and no stimulator bound.
\<close>

theorem mismatched_stimulators_fail:
  "length ss \<noteq> length rs \<Longrightarrow> Monitor_init cam (Some rs) (Some ss) yoke h = Inl (ValueError, h)"
  by (simp add: Monitor_init_def)

theorem mismatched_stimulators_fail_witness:
  "length [5::nat, 6] \<noteq> length [\<lparr>idx = 1, geometry = ()\<rparr>] \<and>
   (Monitor_init ([] :: unit pull list) (Some [\<lparr>idx = 1, geometry = ()\<rparr>]) (Some [5, 6]) YokeNone
      \<lparr>n_trackers = 0, stim_tracker = Map.empty\<rparr>
     :: (error \<times> heap) + ((unit, unit, unit) monitor \<times> heap))
   = Inl (ValueError, \<lparr>n_trackers = 0, stim_tracker = Map.empty\<rparr>)"
  using mismatched_stimulators_fail
    [of "[5, 6]" "[\<lparr>idx = 1, geometry = ()\<rparr>]" "[]" YokeNone
        "\<lparr>n_trackers = 0, stim_tracker = Map.empty\<rparr>"]
  by simp

section \<open>Properties of Monitor.run\<close>

lemma track_units_frame:
  "track_units tr glp rw t fr us m = (out, m') \<Longrightarrow>
     force_stop m' = force_stop m \<and> unit_trackers m' = unit_trackers m \<and>
     last_frame_idx m' = last_frame_idx m \<and> is_running m' = is_running m"
proof (induction us arbitrary: m)
  case Nil then show ?case by simp
next
  case (Cons u us)
  then show ?case
    by (auto split: sum.splits if_splits option.splits simp: Let_def)
qed

lemma track_units_raises:
  "tr u t fr = Inl e \<Longrightarrow> list_all (unit_passes tr glp rw t fr) us1 \<Longrightarrow>
   fst (track_units tr glp rw t fr (us1 @ u # us2) m) = Some e"
proof (induction us1 arbitrary: m)
  case Nil then show ?case by simp
next
  case (Cons v vs)
  then show ?case
    by (auto split: sum.splits if_splits option.splits simp: Let_def unit_passes_def)
qed

lemma track_units_some_raises:
  "u \<in> set us \<Longrightarrow> tr u t fr = Inl e \<Longrightarrow> fst (track_units tr glp rw t fr us m) \<noteq> None"
proof (induction us arbitrary: m)
  case Nil then show ?case by simp
next
  case (Cons v vs)
  then show ?case
    by (auto split: sum.splits if_splits option.splits simp: Let_def)
qed

lemma run_loop_raises_later:
  "Frame t fr \<in> set pulls \<Longrightarrow> \<not> force_stop m \<Longrightarrow> \<forall>i. \<not> sc i \<Longrightarrow>
   u \<in> set (unit_trackers m) \<Longrightarrow> tr u t fr = Inl e \<Longrightarrow>
   fst (run_loop tr glp sc rw dr i pulls m) \<noteq> None"
proof (induction pulls arbitrary: m i)
  case Nil then show ?case by simp
next
  case (Cons p pulls)
  show ?case
  proof (cases p)
    case (SourceRaises x) then show ?thesis by simp
  next
    case (Frame t' fr')
    let ?m1 = "m\<lparr>last_frame_idx := int i, last_time_stamp := t', frame_buffer := Some fr'\<rparr>"
    obtain out m2 where tu: "track_units tr glp rw t' fr' (unit_trackers m) ?m1 = (out, m2)"
      by (cases "track_units tr glp rw t' fr' (unit_trackers m) ?m1") auto
    from track_units_frame[OF tu] have fr: "force_stop m2 = force_stop m" "unit_trackers m2 = unit_trackers m"
      by simp_all
    show ?thesis
    proof (cases "t' = t \<and> fr' = fr")
      case True
      with Cons.prems have "fst (track_units tr glp rw t' fr' (unit_trackers m) ?m1) \<noteq> None"
        using track_units_some_raises by metis
      with tu have "out \<noteq> None" by simp
      then show ?thesis using Frame Cons.prems tu by (auto simp: Let_def)
    next
      case False
      with Cons.prems Frame have mem: "Frame t fr \<in> set pulls" by auto
      show ?thesis
      proof (cases out)
        case (Some e') then show ?thesis using Frame Cons.prems tu by (auto simp: Let_def)
      next
        case None
        have ih: "fst (run_loop tr glp sc rw dr (Suc i) pulls (m2\<lparr>last_t := Some t'\<rparr>)) \<noteq> None"
        proof (rule Cons.IH[OF mem _ Cons.prems(3) _ Cons.prems(5)])
          show "\<not> force_stop (m2\<lparr>last_t := Some t'\<rparr>)" using fr Cons.prems(2) by simp
          show "u \<in> set (unit_trackers (m2\<lparr>last_t := Some t'\<rparr>))" using fr Cons.prems(4) by simp
        qed
        have nsc: "\<not> sc i" using Cons.prems(3) by blast
        show ?thesis using Frame Cons.prems(2) nsc tu None ih
          by (auto simp: Let_def split: option.splits)
      qed
    qed
  qed
qed

text \<open>
  Claim C7. Whatever \<open>run\<close> meets (exhaustion of the frame source, a \<open>stop()\<close> from
  another thread, an exception of a collaborator), \<open>is_running\<close> is false afterwards. On
  a frame source that yields nothing, \<open>run\<close> ends without exception and
  \<open>last_frame_idx\<close> is what it was. When \<open>track\<close> of a unit raises on the first frame
  and the units before it pass, that exception leaves \<open>run\<close>, and \<open>is_running\<close> is false;
  and when, with no stop requested, \<open>track\<close> of any unit raises on any frame of the source,
  \<open>run\<close> ends with an exception.
\<close>

theorem run_exit_paths:
  "is_running (snd (run tr glp sc rw dr m)) = False \<and>
   fst (run tr glp sc rw dr (m\<lparr>camera := []\<rparr>)) = None \<and>
   last_frame_idx (snd (run tr glp sc rw dr (m\<lparr>camera := []\<rparr>))) = last_frame_idx m \<and>
   (\<not> force_stop m \<and> \<not> sc 0 \<and> tr u t fr = Inl e \<and> list_all (unit_passes tr glp rw t fr) us1 \<longrightarrow>
      fst (run tr glp sc rw dr (m\<lparr>camera := Frame t fr # pulls, unit_trackers := us1 @ u # us2\<rparr>)) = Some e \<and>
      is_running (snd (run tr glp sc rw dr (m\<lparr>camera := Frame t fr # pulls, unit_trackers := us1 @ u # us2\<rparr>))) = False) \<and>
   (\<not> force_stop m \<and> (\<forall>i. \<not> sc i) \<and> Frame t fr \<in> set (camera m) \<and> u \<in> set (unit_trackers m) \<and> tr u t fr = Inl e \<longrightarrow>
      fst (run tr glp sc rw dr m) \<noteq> None)"
proof -
  have a: "\<And>m. is_running (snd (run tr glp sc rw dr m)) = False"
    by (simp add: run_def split: prod.splits)
  have b: "fst (run tr glp sc rw dr (m\<lparr>camera := []\<rparr>)) = None \<and>
   last_frame_idx (snd (run tr glp sc rw dr (m\<lparr>camera := []\<rparr>))) = last_frame_idx m"
    by (simp add: run_def stop_def)
  have c: "fst (run tr glp sc rw dr (m\<lparr>camera := Frame t fr # pulls, unit_trackers := us1 @ u # us2\<rparr>)) = Some e"
    if h: "\<not> force_stop m" "\<not> sc 0" "tr u t fr = Inl e" "list_all (unit_passes tr glp rw t fr) us1"
  proof -
    let ?m1 = "m\<lparr>camera := Frame t fr # pulls, unit_trackers := us1 @ u # us2, is_running := True,
                 last_frame_idx := int 0, last_time_stamp := t, frame_buffer := Some fr\<rparr>"
    have "fst (track_units tr glp rw t fr (us1 @ u # us2) ?m1) = Some e"
      using track_units_raises[OF h(3) h(4)] by simp
    then show ?thesis using h(1,2)
      by (auto simp: run_def Let_def split: prod.splits option.splits)
  qed
  have d: "fst (run tr glp sc rw dr m) \<noteq> None"
    if h: "\<not> force_stop m" "\<forall>i. \<not> sc i" "Frame t fr \<in> set (camera m)" "u \<in> set (unit_trackers m)" "tr u t fr = Inl e"
  proof -
    have "fst (run_loop tr glp sc rw dr 0 (camera m) (m\<lparr>is_running := True\<rparr>)) \<noteq> None"
      using run_loop_raises_later[of t fr "camera m" "m\<lparr>is_running := True\<rparr>" sc u tr e glp rw dr 0] h by simp
    then show ?thesis by (auto simp: run_def split: prod.splits)
  qed
  show ?thesis using a b c d by blast
qed

theorem run_exit_paths_witness:
  "\<not> force_stop (new_monitor [Frame 0 ()] [\<lparr>tu_roi = \<lparr>idx = 1, geometry = ()\<rparr>, tu_tracker = 0, tu_stimulator = None\<rparr>]
        :: (unit, unit, unit) monitor) \<and>
   fst (run (\<lambda>u t f. (Inl (External ''tracker failed'') :: error + unit list))
            (\<lambda>u t f. Inr []) (\<lambda>i. False) None None
          (new_monitor [Frame 0 ()] [\<lparr>tu_roi = \<lparr>idx = 1, geometry = ()\<rparr>, tu_tracker = 0, tu_stimulator = None\<rparr>]
             :: (unit, unit, unit) monitor))
     = Some (External ''tracker failed'') \<and>
   is_running (snd (run (\<lambda>u t f. (Inl (External ''tracker failed'') :: error + unit list))
            (\<lambda>u t f. Inr []) (\<lambda>i. False) None None
          (new_monitor [Frame 0 ()] [\<lparr>tu_roi = \<lparr>idx = 1, geometry = ()\<rparr>, tu_tracker = 0, tu_stimulator = None\<rparr>]
             :: (unit, unit, unit) monitor))) = False"
proof -
  let ?u = "\<lparr>tu_roi = \<lparr>idx = 1, geometry = ()\<rparr>, tu_tracker = 0, tu_stimulator = None\<rparr> :: unit tracking_unit"
  let ?m = "new_monitor [Frame 0 ()] [?u] :: (unit, unit, unit) monitor"
  let ?tr = "\<lambda>(u :: unit tracking_unit) (t :: real) (f :: unit). (Inl (External ''tracker failed'') :: error + unit list)"
  let ?glp = "\<lambda>(u :: unit tracking_unit) (t :: real) (f :: unit). (Inr [] :: error + unit list)"
  have eq: "?m\<lparr>camera := Frame 0 () # [], unit_trackers := [] @ ?u # []\<rparr> = ?m"
    by (simp add: new_monitor_def)
  have h: "\<not> force_stop ?m \<and> \<not> (\<lambda>i::nat. False) 0 \<and> ?tr ?u 0 () = Inl (External ''tracker failed'') \<and>
           list_all (unit_passes ?tr ?glp None 0 ()) []"
    by (simp add: new_monitor_def)
  from run_exit_paths[of ?tr ?glp "\<lambda>i. False" None None ?m ?u 0 "()" "External ''tracker failed''" "[]" "[]" "[]"]
  have "\<not> force_stop ?m \<and> \<not> (\<lambda>i::nat. False) 0 \<and> ?tr ?u 0 () = Inl (External ''tracker failed'') \<and>
           list_all (unit_passes ?tr ?glp None 0 ()) [] \<longrightarrow>
        fst (run ?tr ?glp (\<lambda>i. False) None None (?m\<lparr>camera := Frame 0 () # [], unit_trackers := [] @ ?u # []\<rparr>))
          = Some (External ''tracker failed'') \<and>
        is_running (snd (run ?tr ?glp (\<lambda>i. False) None None (?m\<lparr>camera := Frame 0 () # [], unit_trackers := [] @ ?u # []\<rparr>))) = False"
    by blast
  with h have "fst (run ?tr ?glp (\<lambda>i. False) None None (?m\<lparr>camera := Frame 0 () # [], unit_trackers := [] @ ?u # []\<rparr>))
          = Some (External ''tracker failed'') \<and>
        is_running (snd (run ?tr ?glp (\<lambda>i. False) None None (?m\<lparr>camera := Frame 0 () # [], unit_trackers := [] @ ?u # []\<rparr>))) = False"
    by blast
  then show ?thesis unfolding eq using h by blast
qed

section \<open>Properties of the asynchronous dispatch\<close>

lemma proc_inv_new: "proc_inv (new_interactor tg)"
  by (simp add: proc_inv_def new_interactor_def)

lemma proc_inv_step: "proc_inv st \<Longrightarrow> proc_inv (step ev st)"
proof (cases st)
  case (Pair self procs)
  assume inv: "proc_inv st"
  show ?thesis
  proof (cases ev)
    case (Trigger kw)
    show ?thesis
    proof (cases "is_alive procs (subprocess self)")
      case True
      then show ?thesis using inv Pair Trigger by (simp add: interact_async_def)
    next
      case False
      have idle: "\<forall>p < length procs. p_state (procs ! p) \<noteq> Running"
        using inv Pair False unfolding proc_inv_def is_alive_def
        by (metis (mono_tags, lifting) case_prod_conv)
      show ?thesis
      proof (cases "target self")
        case None
        then show ?thesis using inv Pair Trigger False by (simp add: interact_async_def)
      next
        case (Some tgt)
        have "step ev st = (self\<lparr>subprocess := length procs\<rparr>,
                procs @ [\<lparr>p_state = Running, p_target = Some tgt, p_kwargs = kw\<rparr>])"
          using Pair Trigger False Some by (simp add: interact_async_def Let_def start_def)
        then show ?thesis using idle Some
          by (auto simp: proc_inv_def nth_append)
      qed
    qed
  next
    case (Finish p)
    show ?thesis using inv Pair Finish
      by (auto simp: proc_inv_def finish_def is_alive_def nth_list_update split: if_splits)
  qed
qed

lemma proc_inv_exec: "proc_inv st \<Longrightarrow> proc_inv (exec evs st)"
  unfolding exec_def
  by (induction evs arbitrary: st) (simp_all add: proc_inv_step)

lemma filter_nil_but_one:
  "k < length xs \<Longrightarrow> \<forall>p < length xs. p \<noteq> k \<longrightarrow> \<not> P (xs ! p) \<Longrightarrow> length (filter P xs) \<le> 1"
proof -
  assume k: "k < length xs" and h: "\<forall>p < length xs. p \<noteq> k \<longrightarrow> \<not> P (xs ! p)"
  have xs: "xs = take k xs @ xs ! k # drop (Suc k) xs"
    using k by (simp add: id_take_nth_drop)
  have a: "filter P (take k xs) = []"
    using h k by (auto simp: filter_empty_conv in_set_conv_nth)
  have b: "filter P (drop (Suc k) xs) = []"
    using h k by (auto simp: filter_empty_conv in_set_conv_nth)
  have "length (filter P xs) = length (filter P (take k xs @ xs ! k # drop (Suc k) xs))"
    using xs by simp
  also have "\<dots> \<le> 1" using a b by simp
  finally show ?thesis .
qed

lemma in_flight_le_1: "proc_inv (self, procs) \<Longrightarrow> in_flight procs \<le> 1"
  unfolding in_flight_def proc_inv_def
  by (rule filter_nil_but_one[where k = "subprocess self"]) auto

lemma in_flight_none:
  "proc_inv (self, procs) \<Longrightarrow> \<not> is_alive procs (subprocess self) \<Longrightarrow> in_flight procs = 0"
  by (auto simp: in_flight_def proc_inv_def is_alive_def filter_empty_conv in_set_conv_nth)

text \<open>
  Claim C4. After any sequence of triggers and process exits, starting from a new
  asynchronous interactor, at most one of its processes is running. A trigger that arrives
  while the process it refers to is running changes nothing: no process is created, nothing
  is recorded of the request, and the call returns without exception. A trigger that
  arrives after that process has exited creates and starts exactly one new process, which
  is then the only one running.
\<close>

theorem at_most_one_in_flight:
  "(case exec evs (new_interactor tg) of (self, procs) \<Rightarrow>
      in_flight procs \<le> 1 \<and>
      (is_alive procs (subprocess self) \<longrightarrow>
         interact_async kw self procs = (None, self, procs)) \<and>
      (p_state (procs ! subprocess self) = Exited \<longrightarrow>
         (\<exists>tgt. target self = Some tgt \<and>
            interact_async kw self procs =
              (None, self\<lparr>subprocess := length procs\<rparr>,
               procs @ [\<lparr>p_state = Running, p_target = Some tgt, p_kwargs = kw\<rparr>]) \<and>
            in_flight (procs @ [\<lparr>p_state = Running, p_target = Some tgt, p_kwargs = kw\<rparr>]) = 1)))"
proof (cases "exec evs (new_interactor tg)")
  case (Pair self procs)
  have inv: "proc_inv (self, procs)"
    using proc_inv_exec[OF proc_inv_new, of evs tg] Pair by simp
  have a: "in_flight procs \<le> 1" by (rule in_flight_le_1[OF inv])
  have b: "interact_async kw self procs = (None, self, procs)" if "is_alive procs (subprocess self)"
    using that by (simp add: interact_async_def)
  have c: "\<exists>tgt. target self = Some tgt \<and>
            interact_async kw self procs =
              (None, self\<lparr>subprocess := length procs\<rparr>,
               procs @ [\<lparr>p_state = Running, p_target = Some tgt, p_kwargs = kw\<rparr>]) \<and>
            in_flight (procs @ [\<lparr>p_state = Running, p_target = Some tgt, p_kwargs = kw\<rparr>]) = 1"
    if ex: "p_state (procs ! subprocess self) = Exited"
  proof -
    have na: "\<not> is_alive procs (subprocess self)" using ex by (simp add: is_alive_def)
    have "target self \<noteq> None" using inv ex by (auto simp: proc_inv_def)
    then obtain tgt where t: "target self = Some tgt" by auto
    have z: "in_flight procs = 0" by (rule in_flight_none[OF inv na])
    have "interact_async kw self procs =
              (None, self\<lparr>subprocess := length procs\<rparr>,
               procs @ [\<lparr>p_state = Running, p_target = Some tgt, p_kwargs = kw\<rparr>])"
      using na t by (simp add: interact_async_def Let_def start_def)
    moreover have "in_flight (procs @ [\<lparr>p_state = Running, p_target = Some tgt, p_kwargs = kw\<rparr>]) = 1"
      using z by (simp add: in_flight_def)
    ultimately show ?thesis using t by blast
  qed
  show ?thesis using Pair a b c by simp
qed

theorem at_most_one_in_flight_witness:
  "is_alive (snd (exec [Trigger Map.empty] (new_interactor (Some Beep))))
            (subprocess (fst (exec [Trigger Map.empty] (new_interactor (Some Beep))))) \<and>
   interact_async Map.empty (fst (exec [Trigger Map.empty] (new_interactor (Some Beep))))
                            (snd (exec [Trigger Map.empty] (new_interactor (Some Beep))))
     = (None, exec [Trigger Map.empty] (new_interactor (Some Beep))) \<and>
   p_state (snd (exec [Trigger Map.empty, Finish 1] (new_interactor (Some Beep))) !
            subprocess (fst (exec [Trigger Map.empty, Finish 1] (new_interactor (Some Beep))))) = Exited \<and>
   in_flight (snd (snd (interact_async Map.empty
                  (fst (exec [Trigger Map.empty, Finish 1] (new_interactor (Some Beep))))
                  (snd (exec [Trigger Map.empty, Finish 1] (new_interactor (Some Beep))))))) = 1"
proof -
  let ?b = "\<lparr>p_state = NotStarted, p_target = None, p_kwargs = Map.empty\<rparr>"
  have e1: "exec [Trigger Map.empty] (new_interactor (Some Beep)) =
        (\<lparr>tracker = None, subprocess = 1, target = Some Beep\<rparr>,
         [?b, \<lparr>p_state = Running, p_target = Some Beep, p_kwargs = Map.empty\<rparr>])"
    by (simp add: exec_def new_interactor_def interact_async_def is_alive_def start_def Let_def)
  have e2: "exec [Trigger Map.empty, Finish 1] (new_interactor (Some Beep)) =
        (\<lparr>tracker = None, subprocess = 1, target = Some Beep\<rparr>,
         [?b, \<lparr>p_state = Exited, p_target = Some Beep, p_kwargs = Map.empty\<rparr>])"
    by (simp add: exec_def new_interactor_def interact_async_def is_alive_def start_def Let_def finish_def)
  have a1: "is_alive (snd (exec [Trigger Map.empty] (new_interactor (Some Beep))))
            (subprocess (fst (exec [Trigger Map.empty] (new_interactor (Some Beep)))))"
    unfolding e1 by (simp add: is_alive_def)
  have a2: "p_state (snd (exec [Trigger Map.empty, Finish 1] (new_interactor (Some Beep))) !
            subprocess (fst (exec [Trigger Map.empty, Finish 1] (new_interactor (Some Beep))))) = Exited"
    unfolding e2 by simp
  note t1 = at_most_one_in_flight[where evs = "[Trigger Map.empty]" and tg = "Some Beep" and kw = Map.empty]
  note t2 = at_most_one_in_flight[where evs = "[Trigger Map.empty, Finish 1]" and tg = "Some Beep" and kw = Map.empty]
  have c1: "interact_async Map.empty (fst (exec [Trigger Map.empty] (new_interactor (Some Beep))))
                            (snd (exec [Trigger Map.empty] (new_interactor (Some Beep))))
     = (None, exec [Trigger Map.empty] (new_interactor (Some Beep)))"
    using t1 a1 unfolding e1 by simp
  have c2: "in_flight (snd (snd (interact_async Map.empty
                  (fst (exec [Trigger Map.empty, Finish 1] (new_interactor (Some Beep))))
                  (snd (exec [Trigger Map.empty, Finish 1] (new_interactor (Some Beep))))))) = 1"
    using t2 a2 unfolding e2 by simp
  show ?thesis using a1 a2 c1 c2 by blast
qed

section \<open>Properties of SleepDepInteractor\<close>

lemma getitem_last: "getitem (xs @ [x]) (- 1) = Inr x"
  by (simp add: getitem_def py_index_def nth_append)

lemma getitem_last_but_one: "getitem (xs @ [y, x]) (- 2) = Inr y"
proof -
  have "nat (int (length xs)) = length xs" by simp
  then show ?thesis by (simp add: getitem_def py_index_def nth_append)
qed

lemma getitem_last2: "getitem (xs @ [y, x]) (- 1) = Inr x"
  using getitem_last[of "xs @ [y]" x] by simp

lemma sleep_dep_no_trigger_without_timer:
  "sd_t0 self = None \<Longrightarrow> fst (SleepDepInteractor_run T self) \<noteq> Inr (True, kw)"
  by (auto simp: SleepDepInteractor_run_def Let_def split: option.splits sum.splits)

text \<open>
  Claim C5. The inactivity trigger of SleepDepInteractor is edge-triggered. With a tracker
  bound and at least two position samples, let the displacement be the distance between
  the last two samples and \<open>now\<close> the last time stamp. A displacement below the distance
  threshold starts the inactivity timer if it is not running, and triggers nothing; while
  the timer has run for no more than the inactivity duration it triggers nothing and leaves
  the timer alone; once the timer has run for more than the inactivity duration it triggers
  and resets the timer, so that the next call, whatever the history, does not trigger:
  the trigger happens exactly once. A displacement that is not below the threshold (in
  particular one above it) resets the timer and triggers nothing. The timer starts at the
  second of two samples, the first at which a displacement exists.
\<close>

theorem sleep_dep_edge_triggered:
  assumes "tracker self = Some tr"
      and "positions (T tr) = ps @ [p_prev, p_last]"
      and "times (T tr) = ts @ [now]"
  shows
   "(cmod (Complex (pos_x p_last) (pos_y p_last) - Complex (pos_x p_prev) (pos_y p_prev))
       < sd_distance_threshold self \<longrightarrow>
      (sd_t0 self = None \<longrightarrow>
         SleepDepInteractor_run T self =
           (Inr (False, [''channel'' \<mapsto> PyInt (sd_channel self)]), self\<lparr>sd_t0 := Some now\<rparr>)) \<and>
      (\<forall>t0. sd_t0 self = Some t0 \<and> now - t0 \<le> sd_inactivity_time_threshold self \<longrightarrow>
         SleepDepInteractor_run T self =
           (Inr (False, [''channel'' \<mapsto> PyInt (sd_channel self)]), self)) \<and>
      (\<forall>t0. sd_t0 self = Some t0 \<and> now - t0 > sd_inactivity_time_threshold self \<longrightarrow>
         SleepDepInteractor_run T self =
           (Inr (True, [''channel'' \<mapsto> PyInt (sd_channel self)]), self\<lparr>sd_t0 := None\<rparr>) \<and>
         (\<forall>T' kw. fst (SleepDepInteractor_run T' (self\<lparr>sd_t0 := None\<rparr>)) \<noteq> Inr (True, kw)))) \<and>
    (cmod (Complex (pos_x p_last) (pos_y p_last) - Complex (pos_x p_prev) (pos_y p_prev))
       \<ge> sd_distance_threshold self \<longrightarrow>
      SleepDepInteractor_run T self =
        (Inr (False, [''channel'' \<mapsto> PyInt (sd_channel self)]), self\<lparr>sd_t0 := None\<rparr>))"
proof -
  have nt: "\<And>T' kw. fst (SleepDepInteractor_run T' (self\<lparr>sd_t0 := None\<rparr>)) \<noteq> Inr (True, kw)"
    by (rule sleep_dep_no_trigger_without_timer) simp
  show ?thesis
    using assms nt
    by (simp add: SleepDepInteractor_run_def Let_def getitem_last2 getitem_last_but_one getitem_last)
qed

theorem sleep_dep_edge_triggered_witness:
  "SleepDepInteractor_run
      (\<lambda>r. \<lparr>positions = [\<lparr>pos_x = 0, pos_y = 0, pos_roi_idx = 1\<rparr>, \<lparr>pos_x = 0, pos_y = 0, pos_roi_idx = 1\<rparr>],
              times = [0, 10]\<rparr>)
      ((SleepDepInteractor_init 3)\<lparr>tracker := Some 0\<rparr>)
    = (Inr (False, [''channel'' \<mapsto> PyInt 3]), (SleepDepInteractor_init 3)\<lparr>tracker := Some 0, sd_t0 := Some 10\<rparr>) \<and>
   SleepDepInteractor_run
      (\<lambda>r. \<lparr>positions = [\<lparr>pos_x = 0, pos_y = 0, pos_roi_idx = 1\<rparr>, \<lparr>pos_x = 0, pos_y = 0, pos_roi_idx = 1\<rparr>,
                           \<lparr>pos_x = 0, pos_y = 0, pos_roi_idx = 1\<rparr>],
              times = [0, 10, 50]\<rparr>)
      ((SleepDepInteractor_init 3)\<lparr>tracker := Some 0, sd_t0 := Some 10\<rparr>)
    = (Inr (False, [''channel'' \<mapsto> PyInt 3]), (SleepDepInteractor_init 3)\<lparr>tracker := Some 0, sd_t0 := Some 10\<rparr>) \<and>
   SleepDepInteractor_run
      (\<lambda>r. \<lparr>positions = [\<lparr>pos_x = 0, pos_y = 0, pos_roi_idx = 1\<rparr>, \<lparr>pos_x = 0, pos_y = 0, pos_roi_idx = 1\<rparr>,
                           \<lparr>pos_x = 0, pos_y = 0, pos_roi_idx = 1\<rparr>],
              times = [0, 10, 101]\<rparr>)
      ((SleepDepInteractor_init 3)\<lparr>tracker := Some 0, sd_t0 := Some 10\<rparr>)
    = (Inr (True, [''channel'' \<mapsto> PyInt 3]), (SleepDepInteractor_init 3)\<lparr>tracker := Some 0, sd_t0 := None\<rparr>) \<and>
   SleepDepInteractor_run
      (\<lambda>r. \<lparr>positions = [\<lparr>pos_x = 0, pos_y = 0, pos_roi_idx = 1\<rparr>, \<lparr>pos_x = 0, pos_y = 0, pos_roi_idx = 1\<rparr>,
                           \<lparr>pos_x = 1, pos_y = 0, pos_roi_idx = 1\<rparr>],
              times = [0, 10, 20]\<rparr>)
      ((SleepDepInteractor_init 3)\<lparr>tracker := Some 0, sd_t0 := Some 10\<rparr>)
    = (Inr (False, [''channel'' \<mapsto> PyInt 3]), (SleepDepInteractor_init 3)\<lparr>tracker := Some 0, sd_t0 := None\<rparr>)"
proof -
  let ?o = "\<lparr>pos_x = 0, pos_y = 0, pos_roi_idx = 1\<rparr>"
  let ?q = "\<lparr>pos_x = 1, pos_y = 0, pos_roi_idx = 1\<rparr>"
  let ?s0 = "(SleepDepInteractor_init 3)\<lparr>tracker := Some 0\<rparr>"
  let ?s1 = "(SleepDepInteractor_init 3)\<lparr>tracker := Some 0, sd_t0 := Some 10\<rparr>"
  have a: "SleepDepInteractor_run (\<lambda>r. \<lparr>positions = [?o, ?o], times = [0, 10]\<rparr>) ?s0
             = (Inr (False, [''channel'' \<mapsto> PyInt 3]), ?s1)"
    using sleep_dep_edge_triggered
      [where self = ?s0 and tr = 0 and T = "\<lambda>r. \<lparr>positions = [?o, ?o], times = [0, 10]\<rparr>"
         and ps = "[]" and p_prev = ?o and p_last = ?o and ts = "[0]" and now = 10]
    by (simp add: SleepDepInteractor_init_def)
  have b: "SleepDepInteractor_run (\<lambda>r. \<lparr>positions = [?o, ?o, ?o], times = [0, 10, 50]\<rparr>) ?s1
             = (Inr (False, [''channel'' \<mapsto> PyInt 3]), ?s1)"
    using sleep_dep_edge_triggered
      [where self = ?s1 and tr = 0 and T = "\<lambda>r. \<lparr>positions = [?o, ?o, ?o], times = [0, 10, 50]\<rparr>"
         and ps = "[?o]" and p_prev = ?o and p_last = ?o and ts = "[0, 10]" and now = 50]
    by (simp add: SleepDepInteractor_init_def)
  have c: "SleepDepInteractor_run (\<lambda>r. \<lparr>positions = [?o, ?o, ?o], times = [0, 10, 101]\<rparr>) ?s1
             = (Inr (True, [''channel'' \<mapsto> PyInt 3]), (SleepDepInteractor_init 3)\<lparr>tracker := Some 0, sd_t0 := None\<rparr>)"
    using sleep_dep_edge_triggered
      [where self = ?s1 and tr = 0 and T = "\<lambda>r. \<lparr>positions = [?o, ?o, ?o], times = [0, 10, 101]\<rparr>"
         and ps = "[?o]" and p_prev = ?o and p_last = ?o and ts = "[0, 10]" and now = 101]
    by (simp add: SleepDepInteractor_init_def)
  have cm: "cmod (Complex 1 0 - Complex 0 0) = 1"
    by (simp add: cmod_def)
  have d: "SleepDepInteractor_run (\<lambda>r. \<lparr>positions = [?o, ?o, ?q], times = [0, 10, 20]\<rparr>) ?s1
             = (Inr (False, [''channel'' \<mapsto> PyInt 3]), (SleepDepInteractor_init 3)\<lparr>tracker := Some 0, sd_t0 := None\<rparr>)"
    using sleep_dep_edge_triggered
      [where self = ?s1 and tr = 0 and T = "\<lambda>r. \<lparr>positions = [?o, ?o, ?q], times = [0, 10, 20]\<rparr>"
         and ps = "[?o]" and p_prev = ?o and p_last = ?q and ts = "[0, 10]" and now = 20]
    by (simp add: SleepDepInteractor_init_def cm)
  show ?thesis using a b c d by blast
qed

section \<open>Properties of the interactor call\<close>

text \<open>
  Claim C10, amended. For an interactor with a tracker bound whose decision step returns a
  decision and a parameter dictionary, the call returns that dictionary with the key
  \<open>interact\<close> set to the decision, provided the dispatch does not raise: for the
  asynchronous variant when the decision is not to act, or the background process is still
  running (the request is then dropped and the processes are as before), or a target is
  defined; for the synchronous variant when the decision is not to act or the action
  returns. The returned value is the same in all these cases.
\<close>

theorem call_result_independent_of_dispatch:
  assumes "tracker self = Some tr"
      and "run_hook self = (Inr (interact, result), self1)"
      and "tracker ss = Some tr'"
      and "srun ss = (Inr (si, sres), ss1)"
  shows
   "(\<not> interact \<or> is_alive procs (subprocess self1) \<or> target self1 \<noteq> None \<longrightarrow>
       fst (BaseInteractor_call run_hook self procs) = Inr (result(''interact'' \<mapsto> PyBool interact))) \<and>
    (interact \<and> is_alive procs (subprocess self1) \<longrightarrow>
       BaseInteractor_call run_hook self procs = (Inr (result(''interact'' \<mapsto> PyBool True)), self1, procs)) \<and>
    (\<not> si \<or> fst (interact_hook sres w) = None \<longrightarrow>
       fst (BaseInteractorSync_call srun interact_hook ss w) = Inr (sres(''interact'' \<mapsto> PyBool si)))"
  using assms
  by (auto simp: BaseInteractor_call_def BaseInteractorSync_call_def interact_async_def Let_def
           split: option.splits prod.splits)

text \<open>
  Claim C10 as stated fails: an asynchronous interactor with a tracker bound, no target
  defined and no process running, whose decision step decides to act, raises
  \<open>NotImplementedError\<close> (line 117) instead of returning the dictionary.
\<close>

theorem call_raises_without_target:
  "fst (BaseInteractor_call (\<lambda>s. (Inr (True, Map.empty), s))
          \<lparr>tracker = Some 0, subprocess = 0, target = None\<rparr>
          [\<lparr>p_state = NotStarted, p_target = None, p_kwargs = Map.empty\<rparr>])
     = Inl NotImplementedError"
  by (simp add: BaseInteractor_call_def interact_async_def is_alive_def)

theorem call_result_independent_of_dispatch_witness:
  "fst (BaseInteractor_call (\<lambda>s. (Inr (True, [''freq'' \<mapsto> PyFloat 440]), s))
          \<lparr>tracker = Some 0, subprocess = 1, target = Some Beep\<rparr>
          [\<lparr>p_state = NotStarted, p_target = None, p_kwargs = Map.empty\<rparr>,
           \<lparr>p_state = Running, p_target = Some Beep, p_kwargs = [''freq'' \<mapsto> PyFloat 440]\<rparr>])
     = Inr [''freq'' \<mapsto> PyFloat 440, ''interact'' \<mapsto> PyBool True] \<and>
   snd (snd (BaseInteractor_call (\<lambda>s. (Inr (True, [''freq'' \<mapsto> PyFloat 440]), s))
          \<lparr>tracker = Some 0, subprocess = 1, target = Some Beep\<rparr>
          [\<lparr>p_state = NotStarted, p_target = None, p_kwargs = Map.empty\<rparr>,
           \<lparr>p_state = Running, p_target = Some Beep, p_kwargs = [''freq'' \<mapsto> PyFloat 440]\<rparr>]))
     = [\<lparr>p_state = NotStarted, p_target = None, p_kwargs = Map.empty\<rparr>,
        \<lparr>p_state = Running, p_target = Some Beep, p_kwargs = [''freq'' \<mapsto> PyFloat 440]\<rparr>] \<and>
   fst (BaseInteractorSync_call (\<lambda>s. (Inr (True, [''channel'' \<mapsto> PyInt 3]), s))
          (\<lambda>kw w. (None, kw # w)) \<lparr>tracker = Some 0\<rparr> [])
     = Inr [''channel'' \<mapsto> PyInt 3, ''interact'' \<mapsto> PyBool True]"
proof -
  let ?procs = "[\<lparr>p_state = NotStarted, p_target = None, p_kwargs = Map.empty\<rparr>,
           \<lparr>p_state = Running, p_target = Some Beep, p_kwargs = [''freq'' \<mapsto> PyFloat 440]\<rparr>]"
  let ?self = "\<lparr>tracker = Some 0, subprocess = 1, target = Some Beep\<rparr>"
  have alive: "is_alive ?procs (subprocess ?self)" by (simp add: is_alive_def)
  have quiet: "fst ((\<lambda>kw w. (None :: error option, kw # w)) [''channel'' \<mapsto> PyInt 3] []) = None" by simp
  from call_result_independent_of_dispatch
    [where self = ?self and tr = 0 and run_hook = "\<lambda>s. (Inr (True, [''freq'' \<mapsto> PyFloat 440]), s)"
       and interact = True and result = "[''freq'' \<mapsto> PyFloat 440]" and ?self1.0 = ?self
       and ss = "\<lparr>tracker = Some 0\<rparr>" and tr' = 0
       and srun = "\<lambda>s. (Inr (True, [''channel'' \<mapsto> PyInt 3]), s)" and si = True
       and sres = "[''channel'' \<mapsto> PyInt 3]" and ?ss1.0 = "\<lparr>tracker = Some 0\<rparr>"
       and procs = ?procs and interact_hook = "\<lambda>kw w. (None, kw # w)" and w = "[]"]
  show ?thesis using alive quiet by simp
qed

section \<open>Properties of SystemPlaySoundOnStop\<close>

text \<open>
  Claim C6, amended. When \<open>SystemPlaySoundOnStop._run\<close> decides to fire, the cumulative
  distance computed by \<open>_cumulative_dist\<close> over the trailing window does not exceed the
  distance threshold (it may be equal to it), the rest time has elapsed since the last
  trigger if there was one, and the new trigger time recorded is the last time stamp.
\<close>

theorem sound_fires_only_when:
  assumes "SystemPlaySoundOnStop_run T self = (Inr (True, kw), self')"
  shows "\<exists>tr now cum_dist.
           tracker self = Some tr \<and>
           getitem (times (T tr)) (- 1) = Inr now \<and>
           cumulative_dist self (times (T tr)) (positions (T tr)) = Inr cum_dist \<and>
           cum_dist \<le> ps_distance_threshold self \<and>
           (\<forall>t0. ps_t0 self = Some t0 \<longrightarrow> ps_rest_time self \<le> now - t0) \<and>
           self' = self\<lparr>ps_t0 := Some now\<rparr>"
  using assms
  by (auto simp: SystemPlaySoundOnStop_run_def Let_def split: option.splits sum.splits if_splits)

lemma sqrt_fifth: "sqrt (1 / 25) = 1 / 5"
proof -
  have "sqrt ((1 / 5)\<^sup>2) = \<bar>1 / 5 :: real\<bar>" by (rule real_sqrt_abs)
  then show ?thesis by (simp add: power2_eq_square)
qed

text \<open>
  Claim C6 as stated fails at the boundary: with a cumulative distance equal to the
  distance threshold, hence not below it, the detector fires (line 176 tests \<open>>\<close>).
\<close>

theorem sound_fires_at_threshold:
  "fst (SystemPlaySoundOnStop_run
          (\<lambda>r. \<lparr>positions = [\<lparr>pos_x = 0, pos_y = 0, pos_roi_idx = 1\<rparr>,
                               \<lparr>pos_x = 1 / 5, pos_y = 0, pos_roi_idx = 1\<rparr>],
                 times = [0, 31]\<rparr>)
          ((SystemPlaySoundOnStop_init 440)\<lparr>tracker := Some 0\<rparr>))
     = Inr (True, [''freq'' \<mapsto> PyFloat 440]) \<and>
   cumulative_dist ((SystemPlaySoundOnStop_init 440)\<lparr>tracker := Some 0\<rparr>) [0, 31]
       [\<lparr>pos_x = 0, pos_y = 0, pos_roi_idx = 1\<rparr>, \<lparr>pos_x = 1 / 5, pos_y = 0, pos_roi_idx = 1\<rparr>]
     = Inr (ps_distance_threshold ((SystemPlaySoundOnStop_init 440)\<lparr>tracker := Some 0\<rparr>))"
proof -
  have g: "getitem [0, 31 :: real] (- 1) = Inr 31"
    by (simp add: getitem_def py_index_def)
  have gp: "\<And>a b :: position. getitem [a, b] (- 1) = Inr b"
    by (simp add: getitem_def py_index_def)
  have cd: "cumulative_dist ((SystemPlaySoundOnStop_init 440)\<lparr>tracker := Some 0\<rparr>) [0, 31]
       [\<lparr>pos_x = 0, pos_y = 0, pos_roi_idx = 1\<rparr>, \<lparr>pos_x = 1 / 5, pos_y = 0, pos_roi_idx = 1\<rparr>]
     = Inr (1 / 5)"
    by (simp add: cumulative_dist_def g SystemPlaySoundOnStop_init_def Let_def power2_eq_square sqrt_fifth)
  show ?thesis
    by (simp add: SystemPlaySoundOnStop_run_def g gp cd Let_def)
       (simp add: SystemPlaySoundOnStop_init_def)
qed

theorem sound_fires_only_when_witness:
  "SystemPlaySoundOnStop_run
      (\<lambda>r. \<lparr>positions = [\<lparr>pos_x = 0, pos_y = 0, pos_roi_idx = 1\<rparr>, \<lparr>pos_x = 0, pos_y = 0, pos_roi_idx = 1\<rparr>],
              times = [40, 100]\<rparr>)
      ((SystemPlaySoundOnStop_init 440)\<lparr>tracker := Some 0, ps_t0 := Some 0\<rparr>)
     = (Inr (True, [''freq'' \<mapsto> PyFloat 440]),
        (SystemPlaySoundOnStop_init 440)\<lparr>tracker := Some 0, ps_t0 := Some 100\<rparr>) \<and>
   (\<exists>cum_dist.
      cumulative_dist ((SystemPlaySoundOnStop_init 440)\<lparr>tracker := Some 0, ps_t0 := Some 0\<rparr>) [40, 100]
         [\<lparr>pos_x = 0, pos_y = 0, pos_roi_idx = 1\<rparr>, \<lparr>pos_x = 0, pos_y = 0, pos_roi_idx = 1\<rparr>]
        = Inr cum_dist \<and>
      cum_dist \<le> 2 / 10) \<and>
   (60 :: real) \<le> 100 - 0"
proof -
  let ?T = "\<lambda>r :: nat. \<lparr>positions = [\<lparr>pos_x = 0, pos_y = 0, pos_roi_idx = 1\<rparr>, \<lparr>pos_x = 0, pos_y = 0, pos_roi_idx = 1\<rparr>],
              times = [40, 100 :: real]\<rparr>"
  let ?s = "(SystemPlaySoundOnStop_init 440)\<lparr>tracker := Some 0, ps_t0 := Some 0\<rparr>"
  have g: "getitem [40, 100 :: real] (- 1) = Inr 100"
    by (simp add: getitem_def py_index_def)
  have gp: "\<And>a b :: position. getitem [a, b] (- 1) = Inr b"
    by (simp add: getitem_def py_index_def)
  have cd: "cumulative_dist ?s [40, 100]
       [\<lparr>pos_x = 0, pos_y = 0, pos_roi_idx = 1\<rparr>, \<lparr>pos_x = 0, pos_y = 0, pos_roi_idx = 1\<rparr>] = Inr 0"
    by (simp add: cumulative_dist_def g SystemPlaySoundOnStop_init_def Let_def)
  have fires: "SystemPlaySoundOnStop_run ?T ?s =
      (Inr (True, [''freq'' \<mapsto> PyFloat 440]), (SystemPlaySoundOnStop_init 440)\<lparr>tracker := Some 0, ps_t0 := Some 100\<rparr>)"
    by (simp add: SystemPlaySoundOnStop_run_def g gp cd Let_def)
       (simp add: SystemPlaySoundOnStop_init_def)
  from sound_fires_only_when[OF fires]
  have "\<exists>cum_dist. cumulative_dist ?s [40, 100]
         [\<lparr>pos_x = 0, pos_y = 0, pos_roi_idx = 1\<rparr>, \<lparr>pos_x = 0, pos_y = 0, pos_roi_idx = 1\<rparr>] = Inr cum_dist \<and>
      cum_dist \<le> 2 / 10"
    by (auto simp: SystemPlaySoundOnStop_init_def)
  then show ?thesis using fires by simp
qed

section \<open>Yoke resolution\<close>

lemma py_index_less: "py_index n i = Some j \<Longrightarrow> j < n"
  by (auto simp: py_index_def split: if_splits)

lemma slot_less: "slot n s = Some j \<Longrightarrow> j < n"
  by (auto simp: slot_def py_index_less split: id_value.splits)

lemma slot_valid: "valid_id n s \<Longrightarrow> \<exists>k. s = Numeric k \<and> slot n s = Some (nat (k - 1)) \<and> 1 \<le> k \<and> k \<le> int n"
  by (auto simp: valid_id_def slot_def py_index_def split: id_value.splits)


lemma TrackingUnit_Some:
  "TrackingUnit r (Some s) trk h =
     (\<lparr>tu_roi = r, tu_tracker = n_trackers h, tu_stimulator = Some s\<rparr>,
      h\<lparr>n_trackers := Suc (n_trackers h),
        stim_tracker := (stim_tracker h)(s \<mapsto> (case trk of None \<Rightarrow> n_trackers h | Some t \<Rightarrow> t))\<rparr>)"
  by (simp add: TrackingUnit_def bind_tracker_def Let_def)

lemma focal_step_eq:
  assumes "length uts = n" "length rs = n" "length ss = n"
  shows "focal_step rs ss f (uts, h) =
     (case f of
        NonNumeric \<Rightarrow> Inl (ValueError, h)
      | NotConvertible \<Rightarrow> Inl (TypeError, h)
      | Infinite \<Rightarrow> Inl (OverflowError, h)
      | Numeric k \<Rightarrow>
         (case slot n f of
            None \<Rightarrow> Inl (IndexError, h)
          | Some j \<Rightarrow>
             (case uts ! j of
                Some u \<Rightarrow> Inr (uts, h)
              | None \<Rightarrow> Inr (install rs ss j (n_trackers h) (uts, h)))))"
  using assms
  by (auto simp: focal_step_def py_int_def getitem_def setitem_def slot_def install_def
                 TrackingUnit_Some split: id_value.splits option.splits)

lemma yoked_step_eq:
  assumes "length uts = n" "length rs = n" "length ss = n"
  shows "yoked_step rs ss (y, f) (uts, h) =
     (case y of
        NonNumeric \<Rightarrow> Inl (ValueError, h)
      | NotConvertible \<Rightarrow> Inl (TypeError, h)
      | Infinite \<Rightarrow> Inl (OverflowError, h)
      | Numeric yy \<Rightarrow>
         (case f of
            NonNumeric \<Rightarrow> Inl (ValueError, h)
          | NotConvertible \<Rightarrow> Inl (TypeError, h)
          | Infinite \<Rightarrow> Inl (OverflowError, h)
          | Numeric ff \<Rightarrow>
             (case slot n y of
                None \<Rightarrow> Inl (IndexError, h)
              | Some jy \<Rightarrow>
                 (case slot n f of
                    None \<Rightarrow> Inl (IndexError, h)
                  | Some jf \<Rightarrow>
                     (case uts ! jf of
                        None \<Rightarrow> Inl (AttributeError, h)
                      | Some focal \<Rightarrow> Inr (install rs ss jy (tu_tracker focal) (uts, h)))))))"
  using assms
  by (auto simp: yoked_step_def py_int_def getitem_def setitem_def slot_def install_def
                 TrackingUnit_Some split: id_value.splits option.splits)

lemma default_step_eq:
  assumes "length uts = n" "length rs = n" "length ss = n" "i < n"
  shows "default_step rs ss i (uts, h) =
     (case uts ! i of
        Some u \<Rightarrow> Inr (uts, h)
      | None \<Rightarrow> Inr (install rs ss i (n_trackers h) (uts, h)))"
  using assms
  by (auto simp: default_step_def getitem_def setitem_def py_index_def install_def
                 TrackingUnit_Some split: option.splits)

lemma install_wf:
  "wf_state rs ss st \<Longrightarrow> j < length rs \<Longrightarrow> wf_state rs ss (install rs ss j t st)"
  by (cases st) (auto simp: wf_state_def install_def nth_list_update less_Suc_eq)

lemma install_entry:
  "j < length (fst st) \<Longrightarrow>
   fst (install rs ss j t st) ! i =
     (if i = j then Some \<lparr>tu_roi = rs ! j, tu_tracker = n_trackers (snd st), tu_stimulator = Some (ss ! j)\<rparr>
      else fst st ! i)"
  by (cases st) (auto simp: install_def)

lemma install_binding:
  "stim_tracker (snd (install rs ss j t st)) s =
     (if s = ss ! j then Some t else stim_tracker (snd st) s)"
  by (cases st) (auto simp: install_def)

lemma foreach_append:
  "foreach body (xs @ ys) s =
     (case foreach body xs s of Inl e \<Rightarrow> Inl e | Inr s' \<Rightarrow> foreach body ys s')"
  by (induction xs arbitrary: s) (auto split: sum.splits)

lemma focal_step_effect:
  assumes wf: "wf_state rs ss st" and len: "length ss = length rs"
      and step: "focal_step rs ss f st = Inr st'"
  shows "wf_state rs ss st'"
    and "\<exists>j. slot (length rs) f = Some j \<and> fst st' ! j \<noteq> None"
    and "\<forall>i < length rs. fst st ! i \<noteq> None \<or> slot (length rs) f \<noteq> Some i \<longrightarrow> fst st' ! i = fst st ! i"
    and "distinct ss \<longrightarrow> (\<forall>i < length rs. fst st ! i \<noteq> None \<or> slot (length rs) f \<noteq> Some i \<longrightarrow>
            stim_tracker (snd st') (ss ! i) = stim_tracker (snd st) (ss ! i))"
proof -
  obtain uts h where st: "st = (uts, h)" by (cases st)
  have l: "length uts = length rs" using wf st by (simp add: wf_state_def)
  note eq = focal_step_eq[OF l refl len, of f h]
  from step st eq obtain j where j: "slot (length rs) f = Some j"
     and r: "st' = (if uts ! j = None then install rs ss j (n_trackers h) st else st)"
    by (auto split: id_value.splits option.splits)
  have jn: "j < length rs" using j by (rule slot_less)
  show "wf_state rs ss st'" using r wf install_wf[OF wf jn] by auto
  show "\<exists>j. slot (length rs) f = Some j \<and> fst st' ! j \<noteq> None"
    using j r st l jn install_entry[of j st rs ss] by (auto split: if_splits)
  show "\<forall>i < length rs. fst st ! i \<noteq> None \<or> slot (length rs) f \<noteq> Some i \<longrightarrow> fst st' ! i = fst st ! i"
    using j r st l jn by (auto simp: install_entry)
  show "distinct ss \<longrightarrow> (\<forall>i < length rs. fst st ! i \<noteq> None \<or> slot (length rs) f \<noteq> Some i \<longrightarrow>
            stim_tracker (snd st') (ss ! i) = stim_tracker (snd st) (ss ! i))"
    using j r st l jn len by (auto simp: install_binding nth_eq_iff_index_eq)
qed

lemma focal_step_succeeds:
  assumes wf: "wf_state rs ss st" and len: "length ss = length rs"
      and ok: "slot (length rs) f \<noteq> None"
  shows "\<exists>st'. focal_step rs ss f st = Inr st'"
proof -
  obtain uts h where st: "st = (uts, h)" by (cases st)
  have l: "length uts = length rs" using wf st by (simp add: wf_state_def)
  show ?thesis using ok focal_step_eq[OF l refl len, of f h] st
    by (auto simp: slot_def split: id_value.splits option.splits)
qed


lemma yoked_step_effect:
  assumes wf: "wf_state rs ss st" and len: "length ss = length rs"
      and step: "yoked_step rs ss (y, f) st = Inr st'"
  shows "wf_state rs ss st'"
    and "\<forall>i < length rs. fst st ! i \<noteq> None \<longrightarrow> fst st' ! i \<noteq> None"
    and "\<forall>i < length rs. slot (length rs) y \<noteq> Some i \<longrightarrow> fst st' ! i = fst st ! i"
    and "distinct ss \<longrightarrow> (\<forall>i < length rs. slot (length rs) y \<noteq> Some i \<longrightarrow>
            stim_tracker (snd st') (ss ! i) = stim_tracker (snd st) (ss ! i))"
    and "\<exists>jy jf uf uy. slot (length rs) y = Some jy \<and> slot (length rs) f = Some jf \<and>
            fst st ! jf = Some uf \<and> fst st' ! jy = Some uy \<and>
            tu_tracker uy = n_trackers (snd st) \<and>
            stim_tracker (snd st') (ss ! jy) = Some (tu_tracker uf)"
proof -
  obtain uts h where st: "st = (uts, h)" by (cases st)
  have l: "length uts = length rs" using wf st by (simp add: wf_state_def)
  note eq = yoked_step_eq[OF l refl len, of y f h]
  from step st eq obtain jy jf uf where jy: "slot (length rs) y = Some jy"
     and jf: "slot (length rs) f = Some jf" and uf: "uts ! jf = Some uf"
     and r: "st' = install rs ss jy (tu_tracker uf) st"
    by (auto split: id_value.splits option.splits)
  have jn: "jy < length rs" using jy by (rule slot_less)
  show "wf_state rs ss st'" using r install_wf[OF wf jn] by auto
  show "\<forall>i < length rs. fst st ! i \<noteq> None \<longrightarrow> fst st' ! i \<noteq> None"
    using r st l jn by (auto simp: install_entry)
  show "\<forall>i < length rs. slot (length rs) y \<noteq> Some i \<longrightarrow> fst st' ! i = fst st ! i"
    using jy r st l jn by (auto simp: install_entry)
  show "distinct ss \<longrightarrow> (\<forall>i < length rs. slot (length rs) y \<noteq> Some i \<longrightarrow>
            stim_tracker (snd st') (ss ! i) = stim_tracker (snd st) (ss ! i))"
    using jy r st l jn len by (auto simp: install_binding nth_eq_iff_index_eq)
  show "\<exists>jy jf uf uy. slot (length rs) y = Some jy \<and> slot (length rs) f = Some jf \<and>
            fst st ! jf = Some uf \<and> fst st' ! jy = Some uy \<and>
            tu_tracker uy = n_trackers (snd st) \<and>
            stim_tracker (snd st') (ss ! jy) = Some (tu_tracker uf)"
    using jy jf uf r st l jn by (auto simp: install_entry install_binding)
qed

lemma yoked_step_succeeds:
  assumes wf: "wf_state rs ss st" and len: "length ss = length rs"
      and oky: "slot (length rs) y \<noteq> None"
      and okf: "slot (length rs) f = Some jf" and filled: "fst st ! jf \<noteq> None"
  shows "\<exists>st'. yoked_step rs ss (y, f) st = Inr st'"
proof -
  obtain uts h where st: "st = (uts, h)" by (cases st)
  have l: "length uts = length rs" using wf st by (simp add: wf_state_def)
  show ?thesis using oky okf filled yoked_step_eq[OF l refl len, of y f h] st
    by (auto simp: slot_def split: id_value.splits option.splits)
qed


lemma default_step_effect:
  assumes wf: "wf_state rs ss st" and len: "length ss = length rs" and i: "i < length rs"
  shows "\<exists>st'. default_step rs ss i st = Inr st' \<and> wf_state rs ss st' \<and>
           fst st' ! i \<noteq> None \<and>
           (\<forall>k < length rs. fst st ! k \<noteq> None \<or> k \<noteq> i \<longrightarrow> fst st' ! k = fst st ! k) \<and>
           (distinct ss \<longrightarrow> (\<forall>k < length rs. fst st ! k \<noteq> None \<or> k \<noteq> i \<longrightarrow>
               stim_tracker (snd st') (ss ! k) = stim_tracker (snd st) (ss ! k))) \<and>
           (fst st ! i = None \<longrightarrow>
              (\<exists>u. fst st' ! i = Some u \<and> stim_tracker (snd st') (ss ! i) = Some (tu_tracker u)))"
proof -
  obtain uts h where st: "st = (uts, h)" by (cases st)
  have l: "length uts = length rs" using wf st by (simp add: wf_state_def)
  note eq = default_step_eq[OF l refl len i, of h]
  show ?thesis
  proof (cases "uts ! i")
    case None
    then have r: "default_step rs ss i st = Inr (install rs ss i (n_trackers h) st)"
      using eq st by simp
    show ?thesis
      using r None st l i len install_wf[OF wf i, of "n_trackers h"]
      by (auto simp: install_entry install_binding nth_eq_iff_index_eq)
  next
    case (Some u)
    then have r: "default_step rs ss i st = Inr st" using eq st by simp
    show ?thesis using r Some st wf by auto
  qed
qed

lemma focal_loop:
  assumes "wf_state rs ss st" and len: "length ss = length rs"
      and "\<forall>f \<in> set fs. slot (length rs) f \<noteq> None"
  shows "\<exists>st'. foreach (focal_step rs ss) fs st = Inr st' \<and> wf_state rs ss st' \<and>
           (\<forall>f \<in> set fs. \<exists>j. slot (length rs) f = Some j \<and> fst st' ! j \<noteq> None) \<and>
           (\<forall>i < length rs. fst st ! i \<noteq> None \<or> (\<forall>f \<in> set fs. slot (length rs) f \<noteq> Some i) \<longrightarrow>
                fst st' ! i = fst st ! i \<and>
                (distinct ss \<longrightarrow> stim_tracker (snd st') (ss ! i) = stim_tracker (snd st) (ss ! i)))"
  using assms(1,3)
proof (induction fs arbitrary: st)
  case Nil then show ?case by simp
next
  case (Cons f fs)
  have "slot (length rs) f \<noteq> None" using Cons.prems(2) by simp
  from focal_step_succeeds[OF Cons.prems(1) len this]
  obtain st1 where s1: "focal_step rs ss f st = Inr st1" by blast
  note e = focal_step_effect[OF Cons.prems(1) len s1]
  have "\<forall>f \<in> set fs. slot (length rs) f \<noteq> None" using Cons.prems(2) by simp
  from Cons.IH[OF e(1) this]
  obtain st' where r: "foreach (focal_step rs ss) fs st1 = Inr st'" and wf': "wf_state rs ss st'"
    and marks: "\<forall>f \<in> set fs. \<exists>j. slot (length rs) f = Some j \<and> fst st' ! j \<noteq> None"
    and frame: "\<forall>i < length rs. fst st1 ! i \<noteq> None \<or> (\<forall>f \<in> set fs. slot (length rs) f \<noteq> Some i) \<longrightarrow>
                fst st' ! i = fst st1 ! i \<and>
                (distinct ss \<longrightarrow> stim_tracker (snd st') (ss ! i) = stim_tracker (snd st1) (ss ! i))"
    by blast
  have run: "foreach (focal_step rs ss) (f # fs) st = Inr st'" using s1 r by simp
  from e(2) obtain j where j: "slot (length rs) f = Some j" "fst st1 ! j \<noteq> None" by blast
  have jn: "j < length rs" using j(1) by (rule slot_less)
  have "fst st' ! j = fst st1 ! j" using frame jn j(2) by blast
  then have mf: "\<exists>j. slot (length rs) f = Some j \<and> fst st' ! j \<noteq> None"
    using j by auto
  have marks': "\<forall>g \<in> set (f # fs). \<exists>j. slot (length rs) g = Some j \<and> fst st' ! j \<noteq> None"
    using mf marks by simp
  have fr: "\<forall>i < length rs. fst st ! i \<noteq> None \<or> (\<forall>g \<in> set (f # fs). slot (length rs) g \<noteq> Some i) \<longrightarrow>
                fst st' ! i = fst st ! i \<and>
                (distinct ss \<longrightarrow> stim_tracker (snd st') (ss ! i) = stim_tracker (snd st) (ss ! i))"
  proof (intro allI impI)
    fix i assume i: "i < length rs"
      and c: "fst st ! i \<noteq> None \<or> (\<forall>g \<in> set (f # fs). slot (length rs) g \<noteq> Some i)"
    have c0: "fst st ! i \<noteq> None \<or> slot (length rs) f \<noteq> Some i" using c by auto
    have a: "fst st1 ! i = fst st ! i" using e(3) i c0 by blast
    have b: "distinct ss \<longrightarrow> stim_tracker (snd st1) (ss ! i) = stim_tracker (snd st) (ss ! i)"
      using e(4) i c0 by blast
    have c1: "fst st1 ! i \<noteq> None \<or> (\<forall>g \<in> set fs. slot (length rs) g \<noteq> Some i)"
      using c a by auto
    have d: "fst st' ! i = fst st1 ! i \<and>
                (distinct ss \<longrightarrow> stim_tracker (snd st') (ss ! i) = stim_tracker (snd st1) (ss ! i))"
      using frame i c1 by blast
    show "fst st' ! i = fst st ! i \<and>
          (distinct ss \<longrightarrow> stim_tracker (snd st') (ss ! i) = stim_tracker (snd st) (ss ! i))"
      using d a b by simp
  qed
  show ?case using run wf' marks' fr by blast
qed


lemma yoked_loop:
  assumes "wf_state rs ss st" and len: "length ss = length rs"
      and "\<forall>p \<in> set d. slot (length rs) (fst p) \<noteq> None \<and>
              (\<exists>j. slot (length rs) (snd p) = Some j \<and> fst st ! j \<noteq> None)"
  shows "\<exists>st'. foreach (yoked_step rs ss) d st = Inr st' \<and> wf_state rs ss st' \<and>
           (\<forall>i < length rs. fst st ! i \<noteq> None \<longrightarrow> fst st' ! i \<noteq> None) \<and>
           (\<forall>i < length rs. (\<forall>p \<in> set d. slot (length rs) (fst p) \<noteq> Some i) \<longrightarrow>
                fst st' ! i = fst st ! i \<and>
                (distinct ss \<longrightarrow> stim_tracker (snd st') (ss ! i) = stim_tracker (snd st) (ss ! i)))"
  using assms(1,3)
proof (induction d arbitrary: st)
  case Nil then show ?case by simp
next
  case (Cons p d)
  obtain y f where p: "p = (y, f)" by (cases p)
  have hp: "slot (length rs) (fst p) \<noteq> None \<and>
              (\<exists>j. slot (length rs) (snd p) = Some j \<and> fst st ! j \<noteq> None)"
    using Cons.prems(2) by simp
  then obtain jf where y: "slot (length rs) y \<noteq> None"
    and f: "slot (length rs) f = Some jf" "fst st ! jf \<noteq> None" using p by auto
  from yoked_step_succeeds[OF Cons.prems(1) len y f]
  obtain st1 where s1: "yoked_step rs ss (y, f) st = Inr st1" by blast
  note e = yoked_step_effect[OF Cons.prems(1) len s1]
  have filled: "\<forall>q \<in> set d. slot (length rs) (fst q) \<noteq> None \<and>
              (\<exists>j. slot (length rs) (snd q) = Some j \<and> fst st1 ! j \<noteq> None)"
  proof
    fix q assume m: "q \<in> set d"
    then have "slot (length rs) (fst q) \<noteq> None \<and>
              (\<exists>j. slot (length rs) (snd q) = Some j \<and> fst st ! j \<noteq> None)"
      using Cons.prems(2) by simp
    then obtain j where a: "slot (length rs) (fst q) \<noteq> None"
      and b: "slot (length rs) (snd q) = Some j" and c: "fst st ! j \<noteq> None" by blast
    have "j < length rs" using b by (rule slot_less)
    then have "fst st1 ! j \<noteq> None" using e(2) c by blast
    then show "slot (length rs) (fst q) \<noteq> None \<and>
              (\<exists>j. slot (length rs) (snd q) = Some j \<and> fst st1 ! j \<noteq> None)"
      using a b by blast
  qed
  from Cons.IH[OF e(1) filled]
  obtain st' where r: "foreach (yoked_step rs ss) d st1 = Inr st'" and wf': "wf_state rs ss st'"
    and mono: "\<forall>i < length rs. fst st1 ! i \<noteq> None \<longrightarrow> fst st' ! i \<noteq> None"
    and frame: "\<forall>i < length rs. (\<forall>p \<in> set d. slot (length rs) (fst p) \<noteq> Some i) \<longrightarrow>
                fst st' ! i = fst st1 ! i \<and>
                (distinct ss \<longrightarrow> stim_tracker (snd st') (ss ! i) = stim_tracker (snd st1) (ss ! i))"
    by blast
  have run: "foreach (yoked_step rs ss) (p # d) st = Inr st'" using s1 r p by simp
  have mono': "\<forall>i < length rs. fst st ! i \<noteq> None \<longrightarrow> fst st' ! i \<noteq> None"
    using e(2) mono by blast
  have fr: "\<forall>i < length rs. (\<forall>q \<in> set (p # d). slot (length rs) (fst q) \<noteq> Some i) \<longrightarrow>
                fst st' ! i = fst st ! i \<and>
                (distinct ss \<longrightarrow> stim_tracker (snd st') (ss ! i) = stim_tracker (snd st) (ss ! i))"
  proof (intro allI impI)
    fix i assume i: "i < length rs"
      and c: "\<forall>q \<in> set (p # d). slot (length rs) (fst q) \<noteq> Some i"
    have c0: "slot (length rs) y \<noteq> Some i" using c p by simp
    have c1: "\<forall>q \<in> set d. slot (length rs) (fst q) \<noteq> Some i" using c by simp
    have a: "fst st1 ! i = fst st ! i" using e(3) i c0 by blast
    have b: "distinct ss \<longrightarrow> stim_tracker (snd st1) (ss ! i) = stim_tracker (snd st) (ss ! i)"
      using e(4) i c0 by blast
    have d: "fst st' ! i = fst st1 ! i \<and>
                (distinct ss \<longrightarrow> stim_tracker (snd st') (ss ! i) = stim_tracker (snd st1) (ss ! i))"
      using frame i c1 by blast
    show "fst st' ! i = fst st ! i \<and>
          (distinct ss \<longrightarrow> stim_tracker (snd st') (ss ! i) = stim_tracker (snd st) (ss ! i))"
      using d a b by simp
  qed
  show ?case using run wf' mono' fr by blast
qed


lemma default_loop:
  assumes "wf_state rs ss st" and len: "length ss = length rs"
      and "\<forall>i \<in> set is. i < length rs"
  shows "\<exists>st'. foreach (default_step rs ss) is st = Inr st' \<and> wf_state rs ss st' \<and>
           (\<forall>i \<in> set is. fst st' ! i \<noteq> None) \<and>
           (\<forall>k < length rs. fst st ! k \<noteq> None \<or> k \<notin> set is \<longrightarrow>
                fst st' ! k = fst st ! k \<and>
                (distinct ss \<longrightarrow> stim_tracker (snd st') (ss ! k) = stim_tracker (snd st) (ss ! k))) \<and>
           (distinct ss \<longrightarrow> (\<forall>i \<in> set is. fst st ! i = None \<longrightarrow>
               (\<exists>u. fst st' ! i = Some u \<and> stim_tracker (snd st') (ss ! i) = Some (tu_tracker u))))"
  using assms(1,3)
proof (induction "is" arbitrary: st)
  case Nil then show ?case by simp
next
  case (Cons i "is")
  have i: "i < length rs" using Cons.prems(2) by simp
  obtain st1 where E: "default_step rs ss i st = Inr st1 \<and> wf_state rs ss st1 \<and>
           fst st1 ! i \<noteq> None \<and>
           (\<forall>k < length rs. fst st ! k \<noteq> None \<or> k \<noteq> i \<longrightarrow> fst st1 ! k = fst st ! k) \<and>
           (distinct ss \<longrightarrow> (\<forall>k < length rs. fst st ! k \<noteq> None \<or> k \<noteq> i \<longrightarrow>
               stim_tracker (snd st1) (ss ! k) = stim_tracker (snd st) (ss ! k))) \<and>
           (fst st ! i = None \<longrightarrow>
              (\<exists>u. fst st1 ! i = Some u \<and> stim_tracker (snd st1) (ss ! i) = Some (tu_tracker u)))"
    using default_step_effect[OF Cons.prems(1) len i] ..
  have s1: "default_step rs ss i st = Inr st1" and wf1: "wf_state rs ss st1"
    and fi: "fst st1 ! i \<noteq> None"
    and k1: "\<forall>k < length rs. fst st ! k \<noteq> None \<or> k \<noteq> i \<longrightarrow> fst st1 ! k = fst st ! k"
    and b1: "distinct ss \<longrightarrow> (\<forall>k < length rs. fst st ! k \<noteq> None \<or> k \<noteq> i \<longrightarrow>
               stim_tracker (snd st1) (ss ! k) = stim_tracker (snd st) (ss ! k))"
    and n1: "fst st ! i = None \<longrightarrow>
              (\<exists>u. fst st1 ! i = Some u \<and> stim_tracker (snd st1) (ss ! i) = Some (tu_tracker u))"
    using E by simp_all
  have sub: "\<forall>i \<in> set is. i < length rs" using Cons.prems(2) by simp
  obtain st' where R: "foreach (default_step rs ss) is st1 = Inr st' \<and> wf_state rs ss st' \<and>
           (\<forall>i \<in> set is. fst st' ! i \<noteq> None) \<and>
           (\<forall>k < length rs. fst st1 ! k \<noteq> None \<or> k \<notin> set is \<longrightarrow>
                fst st' ! k = fst st1 ! k \<and>
                (distinct ss \<longrightarrow> stim_tracker (snd st') (ss ! k) = stim_tracker (snd st1) (ss ! k))) \<and>
           (distinct ss \<longrightarrow> (\<forall>i \<in> set is. fst st1 ! i = None \<longrightarrow>
               (\<exists>u. fst st' ! i = Some u \<and> stim_tracker (snd st') (ss ! i) = Some (tu_tracker u))))"
    using Cons.IH[OF wf1 sub] ..
  have r: "foreach (default_step rs ss) is st1 = Inr st'" and wf': "wf_state rs ss st'"
    and fill: "\<forall>i \<in> set is. fst st' ! i \<noteq> None"
    and frame: "\<forall>k < length rs. fst st1 ! k \<noteq> None \<or> k \<notin> set is \<longrightarrow>
                fst st' ! k = fst st1 ! k \<and>
                (distinct ss \<longrightarrow> stim_tracker (snd st') (ss ! k) = stim_tracker (snd st1) (ss ! k))"
    and bind: "distinct ss \<longrightarrow> (\<forall>i \<in> set is. fst st1 ! i = None \<longrightarrow>
               (\<exists>u. fst st' ! i = Some u \<and> stim_tracker (snd st') (ss ! i) = Some (tu_tracker u)))"
    using R by simp_all
  have run: "foreach (default_step rs ss) (i # is) st = Inr st'" using s1 r by simp
  have keep_i: "fst st' ! i = fst st1 ! i \<and>
                (distinct ss \<longrightarrow> stim_tracker (snd st') (ss ! i) = stim_tracker (snd st1) (ss ! i))"
    using frame[rule_format, OF i] fi by simp
  have fill': "\<forall>j \<in> set (i # is). fst st' ! j \<noteq> None"
    using fill fi keep_i by simp
  have fr: "\<forall>k < length rs. fst st ! k \<noteq> None \<or> k \<notin> set (i # is) \<longrightarrow>
                fst st' ! k = fst st ! k \<and>
                (distinct ss \<longrightarrow> stim_tracker (snd st') (ss ! k) = stim_tracker (snd st) (ss ! k))"
  proof (intro allI impI)
    fix k assume k: "k < length rs" and c: "fst st ! k \<noteq> None \<or> k \<notin> set (i # is)"
    have c0: "fst st ! k \<noteq> None \<or> k \<noteq> i" using c by auto
    have a: "fst st1 ! k = fst st ! k" using k1[rule_format, OF k c0] .
    have b: "distinct ss \<longrightarrow> stim_tracker (snd st1) (ss ! k) = stim_tracker (snd st) (ss ! k)"
    proof (intro impI)
      assume ds: "distinct ss"
      show "stim_tracker (snd st1) (ss ! k) = stim_tracker (snd st) (ss ! k)"
        using b1[rule_format, OF ds k c0] .
    qed
    have c1: "fst st1 ! k \<noteq> None \<or> k \<notin> set is" using c a by auto
    have d: "fst st' ! k = fst st1 ! k \<and>
                (distinct ss \<longrightarrow> stim_tracker (snd st') (ss ! k) = stim_tracker (snd st1) (ss ! k))"
      using frame[rule_format, OF k c1] .
    show "fst st' ! k = fst st ! k \<and>
          (distinct ss \<longrightarrow> stim_tracker (snd st') (ss ! k) = stim_tracker (snd st) (ss ! k))"
      using d a b by simp
  qed
  have bd: "distinct ss \<longrightarrow> (\<forall>j \<in> set (i # is). fst st ! j = None \<longrightarrow>
               (\<exists>u. fst st' ! j = Some u \<and> stim_tracker (snd st') (ss ! j) = Some (tu_tracker u)))"
  proof (intro impI ballI)
    fix j assume ds: "distinct ss" and j: "j \<in> set (i # is)" and nj: "fst st ! j = None"
    have jn: "j < length rs" using j Cons.prems(2) by auto
    show "\<exists>u. fst st' ! j = Some u \<and> stim_tracker (snd st') (ss ! j) = Some (tu_tracker u)"
    proof (cases "j = i")
      case True
      from n1 nj True obtain u where u: "fst st1 ! i = Some u"
        "stim_tracker (snd st1) (ss ! i) = Some (tu_tracker u)" by auto
      show ?thesis using u True keep_i ds by simp
    next
      case False
      then have m: "j \<in> set is" using j by simp
      have "fst st1 ! j = fst st ! j" using k1[rule_format, OF jn] False by simp
      then have n: "fst st1 ! j = None" using nj by simp
      show ?thesis using bind[rule_format, OF ds m n] .
    qed
  qed
  show ?case
  proof (intro exI conjI)
    show "foreach (default_step rs ss) (i # is) st = Inr st'" by (rule run)
    show "wf_state rs ss st'" by (rule wf')
    show "\<forall>j \<in> set (i # is). fst st' ! j \<noteq> None" by (rule fill')
    show "\<forall>k < length rs. fst st ! k \<noteq> None \<or> k \<notin> set (i # is) \<longrightarrow>
                fst st' ! k = fst st ! k \<and>
                (distinct ss \<longrightarrow> stim_tracker (snd st') (ss ! k) = stim_tracker (snd st) (ss ! k))"
      by (rule fr)
    show "distinct ss \<longrightarrow> (\<forall>j \<in> set (i # is). fst st ! j = None \<longrightarrow>
               (\<exists>u. fst st' ! j = Some u \<and> stim_tracker (snd st') (ss ! j) = Some (tu_tracker u)))"
      by (rule bd)
  qed
qed

lemma those_all_Some:
  "\<forall>x \<in> set xs. x \<noteq> None \<Longrightarrow> those xs = Some (map the xs)"
  by (induction xs) auto

lemma wf_initial: "wf_state rs ss (map (\<lambda>r. None) rs, h)"
  by (simp add: wf_state_def)

lemma yoked_loop_effect:
  assumes "foreach (yoked_step rs ss) d st = Inr st'"
      and "wf_state rs ss st" and len: "length ss = length rs"
  shows "wf_state rs ss st' \<and>
         (\<forall>i < length rs. fst st ! i \<noteq> None \<longrightarrow> fst st' ! i \<noteq> None) \<and>
         (\<forall>i < length rs. (\<forall>p \<in> set d. slot (length rs) (fst p) \<noteq> Some i) \<longrightarrow>
              fst st' ! i = fst st ! i \<and>
              (distinct ss \<longrightarrow> stim_tracker (snd st') (ss ! i) = stim_tracker (snd st) (ss ! i)))"
  using assms(1,2)
proof (induction d arbitrary: st)
  case Nil then show ?case by simp
next
  case (Cons p d)
  obtain y f where p: "p = (y, f)" by (cases p)
  from Cons.prems(1) obtain st1 where s1: "yoked_step rs ss (y, f) st = Inr st1"
    and r: "foreach (yoked_step rs ss) d st1 = Inr st'"
    using p by (auto split: sum.splits)
  note e = yoked_step_effect[OF Cons.prems(2) len s1]
  note ih = Cons.IH[OF r e(1)]
  have wf': "wf_state rs ss st'" using ih by simp
  have mono: "\<forall>i < length rs. fst st1 ! i \<noteq> None \<longrightarrow> fst st' ! i \<noteq> None" using ih by simp
  have frame: "\<forall>i < length rs. (\<forall>p \<in> set d. slot (length rs) (fst p) \<noteq> Some i) \<longrightarrow>
                fst st' ! i = fst st1 ! i \<and>
                (distinct ss \<longrightarrow> stim_tracker (snd st') (ss ! i) = stim_tracker (snd st1) (ss ! i))"
    using ih by simp
  have mono': "\<forall>i < length rs. fst st ! i \<noteq> None \<longrightarrow> fst st' ! i \<noteq> None"
    using e(2) mono by blast
  have fr: "\<forall>i < length rs. (\<forall>q \<in> set (p # d). slot (length rs) (fst q) \<noteq> Some i) \<longrightarrow>
                fst st' ! i = fst st ! i \<and>
                (distinct ss \<longrightarrow> stim_tracker (snd st') (ss ! i) = stim_tracker (snd st) (ss ! i))"
  proof (intro allI impI)
    fix i assume i: "i < length rs"
      and c: "\<forall>q \<in> set (p # d). slot (length rs) (fst q) \<noteq> Some i"
    have c0: "slot (length rs) y \<noteq> Some i" using c p by simp
    have c1: "\<forall>q \<in> set d. slot (length rs) (fst q) \<noteq> Some i" using c by simp
    have a: "fst st1 ! i = fst st ! i" using e(3) i c0 by blast
    have b: "distinct ss \<longrightarrow> stim_tracker (snd st1) (ss ! i) = stim_tracker (snd st) (ss ! i)"
      using e(4) i c0 by blast
    have d: "fst st' ! i = fst st1 ! i \<and>
                (distinct ss \<longrightarrow> stim_tracker (snd st') (ss ! i) = stim_tracker (snd st1) (ss ! i))"
      using frame i c1 by blast
    show "fst st' ! i = fst st ! i \<and>
          (distinct ss \<longrightarrow> stim_tracker (snd st') (ss ! i) = stim_tracker (snd st) (ss ! i))"
      using d a b by simp
  qed
  show ?case using wf' mono' fr by simp
qed

lemma yoked_loop_pair:
  assumes run: "foreach (yoked_step rs ss) d st = Inr st'"
      and wf: "wf_state rs ss st" and len: "length ss = length rs"
      and ds: "distinct ss"
      and dk: "distinct (map (\<lambda>p. slot (length rs) (fst p)) d)"
      and mem: "(y, f) \<in> set d"
      and jy: "slot (length rs) y = Some jy" and jf: "slot (length rs) f = Some jf"
      and nk: "\<forall>q \<in> set d. slot (length rs) (fst q) \<noteq> Some jf"
  shows "\<exists>uy uf. fst st ! jf = Some uf \<and> fst st' ! jf = Some uf \<and> fst st' ! jy = Some uy \<and>
           stim_tracker (snd st') (ss ! jy) = Some (tu_tracker uf) \<and>
           tu_tracker uf < tu_tracker uy"
proof -
  from mem obtain d1 d2 where d: "d = d1 @ (y, f) # d2" by (meson split_list)
  from run d obtain sA where a: "foreach (yoked_step rs ss) d1 st = Inr sA"
    and rest: "foreach (yoked_step rs ss) ((y, f) # d2) sA = Inr st'"
    by (auto simp: foreach_append split: sum.splits)
  from rest obtain sB where b: "yoked_step rs ss (y, f) sA = Inr sB"
    and c: "foreach (yoked_step rs ss) d2 sB = Inr st'"
    by (auto split: sum.splits)
  have jyn: "jy < length rs" using jy by (rule slot_less)
  have jfn: "jf < length rs" using jf by (rule slot_less)
  note eA = yoked_loop_effect[OF a wf len]
  have wfA: "wf_state rs ss sA" using eA by simp
  have k1: "\<forall>q \<in> set d1. slot (length rs) (fst q) \<noteq> Some jf" using nk d by simp
  have fA: "fst sA ! jf = fst st ! jf" using eA jfn k1 by simp
  note eB = yoked_step_effect[OF wfA len b]
  from eB(5) jy jf obtain uf uy where uf: "fst sA ! jf = Some uf" and uy: "fst sB ! jy = Some uy"
    and own: "tu_tracker uy = n_trackers (snd sA)"
    and bnd: "stim_tracker (snd sB) (ss ! jy) = Some (tu_tracker uf)" by auto
  have lt: "tu_tracker uf < tu_tracker uy"
    using wfA uf jfn own by (simp add: wf_state_def)
  have yf: "slot (length rs) y \<noteq> Some jf" using nk mem by auto
  have fB: "fst sB ! jf = fst sA ! jf" using eB(3) jfn yf by blast
  note eC = yoked_loop_effect[OF c eB(1) len]
  have k2f: "\<forall>q \<in> set d2. slot (length rs) (fst q) \<noteq> Some jf" using nk d by simp
  have "Some jy \<notin> (\<lambda>p. slot (length rs) (fst p)) ` set d2"
    using dk d jy by auto
  then have k2y: "\<forall>q \<in> set d2. slot (length rs) (fst q) \<noteq> Some jy"
    by force
  have fC: "fst st' ! jf = fst sB ! jf" using eC jfn k2f by simp
  have yC: "fst st' ! jy = fst sB ! jy \<and>
            stim_tracker (snd st') (ss ! jy) = stim_tracker (snd sB) (ss ! jy)"
    using eC jyn k2y ds by simp
  have r1: "fst st ! jf = Some uf" using fA uf by simp
  have r2: "fst st' ! jf = Some uf" using fA fB fC uf by simp
  have r3: "fst st' ! jy = Some uy" using yC uy by simp
  have r4: "stim_tracker (snd st') (ss ! jy) = Some (tu_tracker uf)" using yC bnd by simp
  show ?thesis using r1 r2 r3 r4 lt by blast
qed

lemma resolve_yoke_stages:
  assumes len: "length ss = length rs"
      and valid: "\<forall>p \<in> set d. valid_id (length rs) (fst p) \<and> valid_id (length rs) (snd p)"
  shows "\<exists>st1 st2 st3.
           foreach (focal_step rs ss) (map snd d) (map (\<lambda>r. None) rs, h) = Inr st1 \<and>
           foreach (yoked_step rs ss) d st1 = Inr st2 \<and>
           foreach (default_step rs ss) [0 ..< length rs] st2 = Inr st3 \<and>
           wf_state rs ss st1 \<and> wf_state rs ss st2 \<and> wf_state rs ss st3 \<and>
           resolve_yoke rs ss d h = Inr (map the (fst st3), snd st3) \<and>
           (\<forall>f \<in> set (map snd d). \<exists>j. slot (length rs) f = Some j \<and> fst st1 ! j \<noteq> None) \<and>
           (\<forall>i < length rs. (\<forall>f \<in> set (map snd d). slot (length rs) f \<noteq> Some i) \<longrightarrow> fst st1 ! i = None) \<and>
           (\<forall>i < length rs. fst st3 ! i \<noteq> None) \<and>
           (\<forall>k < length rs. fst st2 ! k \<noteq> None \<longrightarrow>
                fst st3 ! k = fst st2 ! k \<and>
                (distinct ss \<longrightarrow> stim_tracker (snd st3) (ss ! k) = stim_tracker (snd st2) (ss ! k))) \<and>
           (distinct ss \<longrightarrow> (\<forall>i < length rs. fst st2 ! i = None \<longrightarrow>
               (\<exists>u. fst st3 ! i = Some u \<and> stim_tracker (snd st3) (ss ! i) = Some (tu_tracker u))))"
proof -
  let ?n = "length rs"
  let ?st0 = "(map (\<lambda>r. None) rs, h) :: 'a resolving"
  have wf0: "wf_state rs ss ?st0" by (rule wf_initial)
  have v1: "\<forall>f \<in> set (map snd d). slot ?n f \<noteq> None"
    using valid slot_valid by fastforce
  obtain st1 where L1: "foreach (focal_step rs ss) (map snd d) ?st0 = Inr st1 \<and> wf_state rs ss st1 \<and>
           (\<forall>f \<in> set (map snd d). \<exists>j. slot ?n f = Some j \<and> fst st1 ! j \<noteq> None) \<and>
           (\<forall>i < ?n. fst ?st0 ! i \<noteq> None \<or> (\<forall>f \<in> set (map snd d). slot ?n f \<noteq> Some i) \<longrightarrow>
                fst st1 ! i = fst ?st0 ! i \<and>
                (distinct ss \<longrightarrow> stim_tracker (snd st1) (ss ! i) = stim_tracker (snd ?st0) (ss ! i)))"
    using focal_loop[OF wf0 len v1] ..
  have F1: "foreach (focal_step rs ss) (map snd d) ?st0 = Inr st1" and wf1: "wf_state rs ss st1"
    and marks: "\<forall>f \<in> set (map snd d). \<exists>j. slot ?n f = Some j \<and> fst st1 ! j \<noteq> None"
    using L1 by simp_all
  have fr1: "\<forall>i < ?n. (\<forall>f \<in> set (map snd d). slot ?n f \<noteq> Some i) \<longrightarrow> fst st1 ! i = None"
  proof (intro allI impI)
    fix i assume i: "i < ?n" and c: "\<forall>f \<in> set (map snd d). slot ?n f \<noteq> Some i"
    have "fst st1 ! i = fst ?st0 ! i" using L1 i c by blast
    then show "fst st1 ! i = None" using i by simp
  qed
  have v2: "\<forall>p \<in> set d. slot ?n (fst p) \<noteq> None \<and>
              (\<exists>j. slot ?n (snd p) = Some j \<and> fst st1 ! j \<noteq> None)"
  proof
    fix p assume p: "p \<in> set d"
    have "valid_id ?n (fst p)" using valid p by simp
    then have a: "slot ?n (fst p) \<noteq> None" using slot_valid by fastforce
    have "snd p \<in> set (map snd d)" using p by simp
    then have "\<exists>j. slot ?n (snd p) = Some j \<and> fst st1 ! j \<noteq> None" using marks by blast
    then show "slot ?n (fst p) \<noteq> None \<and>
              (\<exists>j. slot ?n (snd p) = Some j \<and> fst st1 ! j \<noteq> None)" using a by simp
  qed
  obtain st2 where L2: "foreach (yoked_step rs ss) d st1 = Inr st2 \<and> wf_state rs ss st2 \<and>
           (\<forall>i < ?n. fst st1 ! i \<noteq> None \<longrightarrow> fst st2 ! i \<noteq> None) \<and>
           (\<forall>i < ?n. (\<forall>p \<in> set d. slot ?n (fst p) \<noteq> Some i) \<longrightarrow>
                fst st2 ! i = fst st1 ! i \<and>
                (distinct ss \<longrightarrow> stim_tracker (snd st2) (ss ! i) = stim_tracker (snd st1) (ss ! i)))"
    using yoked_loop[OF wf1 len v2] ..
  have F2: "foreach (yoked_step rs ss) d st1 = Inr st2" and wf2: "wf_state rs ss st2"
    using L2 by simp_all
  have l2: "length (fst st2) = ?n" using wf2 by (simp add: wf_state_def)
  have v3: "\<forall>i \<in> set [0 ..< ?n]. i < ?n" by simp
  obtain st3 where L3: "foreach (default_step rs ss) [0 ..< ?n] st2 = Inr st3 \<and> wf_state rs ss st3 \<and>
           (\<forall>i \<in> set [0 ..< ?n]. fst st3 ! i \<noteq> None) \<and>
           (\<forall>k < ?n. fst st2 ! k \<noteq> None \<or> k \<notin> set [0 ..< ?n] \<longrightarrow>
                fst st3 ! k = fst st2 ! k \<and>
                (distinct ss \<longrightarrow> stim_tracker (snd st3) (ss ! k) = stim_tracker (snd st2) (ss ! k))) \<and>
           (distinct ss \<longrightarrow> (\<forall>i \<in> set [0 ..< ?n]. fst st2 ! i = None \<longrightarrow>
               (\<exists>u. fst st3 ! i = Some u \<and> stim_tracker (snd st3) (ss ! i) = Some (tu_tracker u))))"
    using default_loop[OF wf2 len v3] ..
  have F3: "foreach (default_step rs ss) [0 ..< ?n] st2 = Inr st3" and wf3: "wf_state rs ss st3"
    using L3 by simp_all
  have fill: "\<forall>i < ?n. fst st3 ! i \<noteq> None" using L3 by simp
  have fr3: "\<forall>k < ?n. fst st2 ! k \<noteq> None \<longrightarrow>
                fst st3 ! k = fst st2 ! k \<and>
                (distinct ss \<longrightarrow> stim_tracker (snd st3) (ss ! k) = stim_tracker (snd st2) (ss ! k))"
    using L3 by simp
  have bd3: "distinct ss \<longrightarrow> (\<forall>i < ?n. fst st2 ! i = None \<longrightarrow>
               (\<exists>u. fst st3 ! i = Some u \<and> stim_tracker (snd st3) (ss ! i) = Some (tu_tracker u)))"
    using L3 by simp
  have l3: "length (fst st3) = ?n" using wf3 by (simp add: wf_state_def)
  have "\<forall>x \<in> set (fst st3). x \<noteq> None"
    using fill l3 by (metis in_set_conv_nth)
  then have th: "those (fst st3) = Some (map the (fst st3))" by (rule those_all_Some)
  have res: "resolve_yoke rs ss d h = Inr (map the (fst st3), snd st3)"
  proof (cases st3)
    case (Pair uts3 h3)
    then show ?thesis using F1 F2 F3 l2 th by (simp add: resolve_yoke_def)
  qed
  show ?thesis
  proof (intro exI conjI)
    show "foreach (focal_step rs ss) (map snd d) ?st0 = Inr st1" by (rule F1)
    show "foreach (yoked_step rs ss) d st1 = Inr st2" by (rule F2)
    show "foreach (default_step rs ss) [0 ..< ?n] st2 = Inr st3" by (rule F3)
    show "wf_state rs ss st1" by (rule wf1)
    show "wf_state rs ss st2" by (rule wf2)
    show "wf_state rs ss st3" by (rule wf3)
    show "resolve_yoke rs ss d h = Inr (map the (fst st3), snd st3)" by (rule res)
    show "\<forall>f \<in> set (map snd d). \<exists>j. slot ?n f = Some j \<and> fst st1 ! j \<noteq> None" by (rule marks)
    show "\<forall>i < ?n. (\<forall>f \<in> set (map snd d). slot ?n f \<noteq> Some i) \<longrightarrow> fst st1 ! i = None" by (rule fr1)
    show "\<forall>i < ?n. fst st3 ! i \<noteq> None" by (rule fill)
    show "\<forall>k < ?n. fst st2 ! k \<noteq> None \<longrightarrow>
                fst st3 ! k = fst st2 ! k \<and>
                (distinct ss \<longrightarrow> stim_tracker (snd st3) (ss ! k) = stim_tracker (snd st2) (ss ! k))"
      by (rule fr3)
    show "distinct ss \<longrightarrow> (\<forall>i < ?n. fst st2 ! i = None \<longrightarrow>
               (\<exists>u. fst st3 ! i = Some u \<and> stim_tracker (snd st3) (ss ! i) = Some (tu_tracker u)))"
      by (rule bd3)
  qed
qed

lemma valid_slot_eq: "valid_id n s \<Longrightarrow> slot n s = Some i \<Longrightarrow> s = Numeric (int i + 1)"
  by (auto simp: valid_id_def slot_def py_index_def split: id_value.splits if_splits)

text \<open>
  Claim C2. For a yoke mapping all of whose ids name a ROI (ids from 1 to \<open>n\<close>), over
  \<open>n\<close> ROIs with \<open>n\<close> stimulators, construction succeeds and the Monitor holds exactly
  \<open>n\<close> units, the unit of each position holding the ROI and the stimulator of that
  position. A position that is neither a focal id nor a yoked id is paired directly with
  its own stimulator: that stimulator (the stimulators being distinct objects) is bound to
  the tracker of the unit of that position.
\<close>

theorem yoke_resolves_every_roi:
  assumes len: "length ss = length rs"
      and valid: "\<forall>p \<in> set d. valid_id (length rs) (fst p) \<and> valid_id (length rs) (snd p)"
  shows "\<exists>m h'. Monitor_init cam (Some rs) (Some ss) (YokeDict d) h = Inr (m, h') \<and>
           length (unit_trackers m) = length rs \<and>
           (\<forall>i < length rs. tu_roi (unit_trackers m ! i) = rs ! i \<and>
                             tu_stimulator (unit_trackers m ! i) = Some (ss ! i)) \<and>
           (\<forall>i < length rs. Numeric (int i + 1) \<notin> fst ` set d \<and> Numeric (int i + 1) \<notin> snd ` set d \<longrightarrow>
              distinct ss \<longrightarrow>
              stim_tracker h' (ss ! i) = Some (tu_tracker (unit_trackers m ! i)))"
proof -
  let ?n = "length rs"
  from resolve_yoke_stages[OF len valid, of h]
  obtain st1 st2 st3 where
        F2: "foreach (yoked_step rs ss) d st1 = Inr st2"
    and wf1: "wf_state rs ss st1" and wf3: "wf_state rs ss st3"
    and res: "resolve_yoke rs ss d h = Inr (map the (fst st3), snd st3)"
    and fr1: "\<forall>i < ?n. (\<forall>f \<in> set (map snd d). slot ?n f \<noteq> Some i) \<longrightarrow> fst st1 ! i = None"
    and fill: "\<forall>i < ?n. fst st3 ! i \<noteq> None"
    and bd3: "distinct ss \<longrightarrow> (\<forall>i < ?n. fst st2 ! i = None \<longrightarrow>
               (\<exists>u. fst st3 ! i = Some u \<and> stim_tracker (snd st3) (ss ! i) = Some (tu_tracker u)))"
    by blast
  let ?us = "map the (fst st3)"
  let ?m = "new_monitor cam ?us :: ('a, 'b, 'c) monitor"
  have l3: "length (fst st3) = ?n" using wf3 by (simp add: wf_state_def)
  have init: "Monitor_init cam (Some rs) (Some ss) (YokeDict d) h = Inr (?m, snd st3)"
    using res len by (simp add: Monitor_init_def)
  have ut: "unit_trackers ?m = ?us" by (simp add: new_monitor_def)
  have lu: "length (unit_trackers ?m) = ?n" using ut l3 by simp
  have fields: "\<forall>i < ?n. tu_roi (unit_trackers ?m ! i) = rs ! i \<and>
                           tu_stimulator (unit_trackers ?m ! i) = Some (ss ! i)"
  proof (intro allI impI)
    fix i assume i: "i < ?n"
    from fill i obtain u where u: "fst st3 ! i = Some u" by auto
    have "tu_roi u = rs ! i \<and> tu_stimulator u = Some (ss ! i)"
      using wf3 i u by (simp add: wf_state_def)
    moreover have "unit_trackers ?m ! i = u" using ut u i l3 by simp
    ultimately show "tu_roi (unit_trackers ?m ! i) = rs ! i \<and>
                     tu_stimulator (unit_trackers ?m ! i) = Some (ss ! i)" by simp
  qed
  note e2 = yoked_loop_effect[OF F2 wf1 len]
  have own: "\<forall>i < ?n. Numeric (int i + 1) \<notin> fst ` set d \<and> Numeric (int i + 1) \<notin> snd ` set d \<longrightarrow>
              distinct ss \<longrightarrow>
              stim_tracker (snd st3) (ss ! i) = Some (tu_tracker (unit_trackers ?m ! i))"
  proof (intro allI impI)
    fix i assume i: "i < ?n"
      and un: "Numeric (int i + 1) \<notin> fst ` set d \<and> Numeric (int i + 1) \<notin> snd ` set d"
      and ds: "distinct ss"
    have nf: "\<forall>f \<in> set (map snd d). slot ?n f \<noteq> Some i"
    proof
      fix f assume f: "f \<in> set (map snd d)"
      then obtain p where p: "p \<in> set d" "f = snd p" by auto
      have v: "valid_id ?n f" using valid p by simp
      show "slot ?n f \<noteq> Some i"
      proof
        assume "slot ?n f = Some i"
        then have "f = Numeric (int i + 1)" using v by (rule valid_slot_eq[rotated])
        then show False using un p by (metis imageI)
      qed
    qed
    have ny: "\<forall>p \<in> set d. slot ?n (fst p) \<noteq> Some i"
    proof
      fix p assume p: "p \<in> set d"
      have v: "valid_id ?n (fst p)" using valid p by simp
      show "slot ?n (fst p) \<noteq> Some i"
      proof
        assume "slot ?n (fst p) = Some i"
        then have "fst p = Numeric (int i + 1)" using v by (rule valid_slot_eq[rotated])
        then show False using un p by (metis imageI)
      qed
    qed
    have "fst st1 ! i = None" using fr1 i nf by simp
    moreover have "fst st2 ! i = fst st1 ! i" using e2 i ny by simp
    ultimately have "fst st2 ! i = None" by simp
    with bd3 ds i obtain u where u: "fst st3 ! i = Some u"
      "stim_tracker (snd st3) (ss ! i) = Some (tu_tracker u)" by blast
    have "unit_trackers ?m ! i = u" using ut u i l3 by simp
    then show "stim_tracker (snd st3) (ss ! i) = Some (tu_tracker (unit_trackers ?m ! i))"
      using u by simp
  qed
  show ?thesis using init lu fields own by blast
qed

lemma valid_slot_inj:
  "valid_id n s \<Longrightarrow> valid_id n s' \<Longrightarrow> slot n s = slot n s' \<Longrightarrow> s = s'"
  by (auto simp: valid_id_def slot_def py_index_def split: id_value.splits if_splits)

text \<open>
  Where no focal ROI is itself yoked, the second loop does what its comment (lines 93-95)
  announces. For a yoke mapping all of whose ids name a ROI, with distinct stimulator
  objects and no ROI named by two keys: for every (yoked, focal) pair whose focal ROI is not
  a key of the mapping, the yoked unit holds the yoked ROI and the yoked ROI's own
  stimulator, and that stimulator is bound to the tracker of the focal unit of the Monitor,
  which is not the yoked unit's own tracker.
\<close>

lemma unchained_pair_observes_focal:
  assumes len: "length ss = length rs"
      and valid: "\<forall>p \<in> set d. valid_id (length rs) (fst p) \<and> valid_id (length rs) (snd p)"
      and ds: "distinct ss"
      and dk: "distinct (map fst d)"
      and mem: "(Numeric y, Numeric f) \<in> set d"
      and nk: "Numeric f \<notin> fst ` set d"
  shows "\<exists>m h'. Monitor_init cam (Some rs) (Some ss) (YokeDict d) h = Inr (m, h') \<and>
           tu_roi (unit_trackers m ! nat (y - 1)) = rs ! nat (y - 1) \<and>
           tu_stimulator (unit_trackers m ! nat (y - 1)) = Some (ss ! nat (y - 1)) \<and>
           stim_tracker h' (ss ! nat (y - 1)) = Some (tu_tracker (unit_trackers m ! nat (f - 1))) \<and>
           tu_tracker (unit_trackers m ! nat (f - 1)) \<noteq> tu_tracker (unit_trackers m ! nat (y - 1))"
proof -
  let ?n = "length rs"
  let ?jy = "nat (y - 1)" and ?jf = "nat (f - 1)"
  from resolve_yoke_stages[OF len valid, of h]
  obtain st1 st2 st3 where
        F2: "foreach (yoked_step rs ss) d st1 = Inr st2"
    and wf1: "wf_state rs ss st1" and wf3: "wf_state rs ss st3"
    and res: "resolve_yoke rs ss d h = Inr (map the (fst st3), snd st3)"
    and fr3: "\<forall>k < ?n. fst st2 ! k \<noteq> None \<longrightarrow>
                fst st3 ! k = fst st2 ! k \<and>
                (distinct ss \<longrightarrow> stim_tracker (snd st3) (ss ! k) = stim_tracker (snd st2) (ss ! k))"
    by blast
  have vy: "valid_id ?n (Numeric y)" and vf: "valid_id ?n (Numeric f)"
    using valid mem by force+
  have jy: "slot ?n (Numeric y) = Some ?jy" using slot_valid[OF vy] by auto
  have jf: "slot ?n (Numeric f) = Some ?jf" using slot_valid[OF vf] by auto
  have jyn: "?jy < ?n" using jy by (rule slot_less)
  have jfn: "?jf < ?n" using jf by (rule slot_less)
  have inj: "inj_on (slot ?n) (set (map fst d))"
  proof (rule inj_onI)
    fix a b assume a: "a \<in> set (map fst d)" and b: "b \<in> set (map fst d)"
      and e: "slot ?n a = slot ?n b"
    have "valid_id ?n a" "valid_id ?n b" using valid a b by auto
    then show "a = b" using e by (rule valid_slot_inj)
  qed
  have "distinct (map (slot ?n) (map fst d))"
    by (rule iffD2[OF distinct_map]) (rule conjI[OF dk inj])
  moreover have "map (slot ?n) (map fst d) = map (\<lambda>p. slot ?n (fst p)) d"
    by (simp only: map_map comp_def)
  ultimately have dks: "distinct (map (\<lambda>p. slot ?n (fst p)) d)" by (simp add: comp_def)
  have nks: "\<forall>q \<in> set d. slot ?n (fst q) \<noteq> Some ?jf"
  proof
    fix q assume q: "q \<in> set d"
    have v: "valid_id ?n (fst q)" using valid q by simp
    show "slot ?n (fst q) \<noteq> Some ?jf"
    proof
      assume "slot ?n (fst q) = Some ?jf"
      then have "slot ?n (fst q) = slot ?n (Numeric f)" using jf by simp
      then have "fst q = Numeric f" using v vf by (rule valid_slot_inj[rotated 2])
      then show False using nk q by (metis imageI)
    qed
  qed
  from yoked_loop_pair[OF F2 wf1 len ds dks mem jy jf nks]
  obtain uy uf where p2: "fst st2 ! ?jf = Some uf" "fst st2 ! ?jy = Some uy"
    "stim_tracker (snd st2) (ss ! ?jy) = Some (tu_tracker uf)" "tu_tracker uf < tu_tracker uy"
    by blast
  have y3: "fst st3 ! ?jy = Some uy"
    and b3: "stim_tracker (snd st3) (ss ! ?jy) = Some (tu_tracker uf)"
    using fr3 jyn p2 ds by simp_all
  have f3: "fst st3 ! ?jf = Some uf" using fr3 jfn p2 by simp
  let ?us = "map the (fst st3)"
  let ?m = "new_monitor cam ?us :: ('a, 'b, 'c) monitor"
  have l3: "length (fst st3) = ?n" using wf3 by (simp add: wf_state_def)
  have init: "Monitor_init cam (Some rs) (Some ss) (YokeDict d) h = Inr (?m, snd st3)"
    using res len by (simp add: Monitor_init_def)
  have ut: "unit_trackers ?m = ?us" by (simp add: new_monitor_def)
  have uyy: "unit_trackers ?m ! ?jy = uy" using ut y3 jyn l3 by simp
  have uff: "unit_trackers ?m ! ?jf = uf" using ut f3 jfn l3 by simp
  have fy: "tu_roi uy = rs ! ?jy \<and> tu_stimulator uy = Some (ss ! ?jy)"
    using wf3 jyn y3 by (simp add: wf_state_def)
  show ?thesis
  proof (intro exI conjI)
    show "Monitor_init cam (Some rs) (Some ss) (YokeDict d) h = Inr (?m, snd st3)" by (rule init)
    show "tu_roi (unit_trackers ?m ! ?jy) = rs ! ?jy" using uyy fy by simp
    show "tu_stimulator (unit_trackers ?m ! ?jy) = Some (ss ! ?jy)" using uyy fy by simp
    show "stim_tracker (snd st3) (ss ! ?jy) = Some (tu_tracker (unit_trackers ?m ! ?jf))"
      using b3 uff by simp
    show "tu_tracker (unit_trackers ?m ! ?jf) \<noteq> tu_tracker (unit_trackers ?m ! ?jy)"
      using uyy uff p2(4) by simp
  qed
qed



lemmas resolve_eval =
  Monitor_init_def resolve_yoke_def focal_step_def yoked_step_def default_step_def
  getitem_def setitem_def py_index_def py_int_def TrackingUnit_def bind_tracker_def
  new_monitor_def Let_def

text \<open>
  A value that \<open>int\<close> cannot convert decides the exception, before any subscript is
  reached: with the mapping \<open>{"3": null}\<close> over two ROIs the first loop raises
  \<open>TypeError\<close> at \<open>int(f)\<close>, and nothing has been built.
\<close>

lemma null_focal_raises_TypeError:
  "(Monitor_init [] (Some [\<lparr>idx = 1, geometry = ()\<rparr>, \<lparr>idx = 2, geometry = ()\<rparr>])
            (Some [10, 11]) (YokeDict [(Numeric 3, NotConvertible)])
            \<lparr>n_trackers = 0, stim_tracker = Map.empty\<rparr>
      :: (error \<times> heap) + ((unit, unit, unit) monitor \<times> heap))
     = Inl (TypeError, \<lparr>n_trackers = 0, stim_tracker = Map.empty\<rparr>)"
  by (simp add: resolve_eval)

text \<open>
  Claim C1: for every (yoked, focal) pair of the mapping, the yoked unit's stimulator
  observes the very tracker of the focal unit. The code breaks this when a focal ROI is
  itself yoked. With the mapping \<open>{"2": "1", "1": "3"}\<close> over three ROIs, iterated in this
  order, the first loop builds a unit for ROI 1 with tracker 0; the second loop binds the
  stimulator of ROI 2 to that tracker and then, at the pair \<open>("1", "3")\<close>, replaces the unit
  of ROI 1 by a new one with tracker 3 (lines 91-97 store unconditionally, unlike lines
  85-86). The Monitor's units end with the trackers 3, 2 and 1, and the stimulator of ROI 2
  observes tracker 0, which no unit of the Monitor owns and no frame will ever update,
  against the comment of lines 93-95.
\<close>

theorem yoked_chain_breaks_identity:
  "(case (Monitor_init [] (Some [\<lparr>idx = 1, geometry = ()\<rparr>, \<lparr>idx = 2, geometry = ()\<rparr>, \<lparr>idx = 3, geometry = ()\<rparr>])
            (Some [10, 11, 12]) (YokeDict [(Numeric 2, Numeric 1), (Numeric 1, Numeric 3)])
            \<lparr>n_trackers = 0, stim_tracker = Map.empty\<rparr>
          :: (error \<times> heap) + ((unit, unit, unit) monitor \<times> heap)) of
      Inl e \<Rightarrow> False
    | Inr (m, h') \<Rightarrow> stim_tracker h' 11 = Some 0 \<and> map tu_tracker (unit_trackers m) = [3, 2, 1])"
  by (simp add: resolve_eval upt_rec)

text \<open>
  The outcome depends on the iteration order of the dictionary: with the same two pairs in
  the other order, the pair \<open>("1", "3")\<close> rebuilds the unit of ROI 1 before the pair
  \<open>("2", "1")\<close> reads its tracker, and both stimulators observe the trackers of the focal
  units the Monitor holds.
\<close>

lemma yoked_chain_other_order:
  "(case (Monitor_init [] (Some [\<lparr>idx = 1, geometry = ()\<rparr>, \<lparr>idx = 2, geometry = ()\<rparr>, \<lparr>idx = 3, geometry = ()\<rparr>])
            (Some [10, 11, 12]) (YokeDict [(Numeric 1, Numeric 3), (Numeric 2, Numeric 1)])
            \<lparr>n_trackers = 0, stim_tracker = Map.empty\<rparr>
          :: (error \<times> heap) + ((unit, unit, unit) monitor \<times> heap)) of
      Inl e \<Rightarrow> False
    | Inr (m, h') \<Rightarrow> map tu_tracker (unit_trackers m) = [2, 3, 0] \<and>
                     stim_tracker h' 11 = Some 2 \<and> stim_tracker h' 10 = Some 0)"
  by (simp add: resolve_eval upt_rec)


theorem yoke_resolves_every_roi_witness:
  "length [10, 11, 12 :: nat] = length [\<lparr>idx = 1, geometry = ()\<rparr>, \<lparr>idx = 2, geometry = ()\<rparr>, \<lparr>idx = 3, geometry = ()\<rparr>] \<and>
   valid_id 3 (Numeric 2) \<and> valid_id 3 (Numeric 1) \<and>
   Numeric 3 \<notin> fst ` set [(Numeric 2, Numeric 1)] \<and> Numeric 3 \<notin> snd ` set [(Numeric 2, Numeric 1)] \<and>
   distinct [10, 11, 12 :: nat] \<and>
   (\<exists>m h'. (Monitor_init [] (Some [\<lparr>idx = 1, geometry = ()\<rparr>, \<lparr>idx = 2, geometry = ()\<rparr>, \<lparr>idx = 3, geometry = ()\<rparr>])
               (Some [10, 11, 12]) (YokeDict [(Numeric 2, Numeric 1)])
               \<lparr>n_trackers = 0, stim_tracker = Map.empty\<rparr>
             :: (error \<times> heap) + ((unit, unit, unit) monitor \<times> heap)) = Inr (m, h') \<and>
           length (unit_trackers m) = 3 \<and>
           tu_roi (unit_trackers m ! 2) = \<lparr>idx = 3, geometry = ()\<rparr> \<and>
           tu_stimulator (unit_trackers m ! 2) = Some 12 \<and>
           stim_tracker h' 12 = Some (tu_tracker (unit_trackers m ! 2)))"
proof -
  let ?rs = "[\<lparr>idx = 1, geometry = ()\<rparr>, \<lparr>idx = 2, geometry = ()\<rparr>, \<lparr>idx = 3, geometry = ()\<rparr>] :: unit roi list"
  let ?ss = "[10, 11, 12] :: nat list"
  let ?d = "[(Numeric 2, Numeric 1)]"
  have h1: "length ?ss = length ?rs" by simp
  have h2: "\<forall>p \<in> set ?d. valid_id (length ?rs) (fst p) \<and> valid_id (length ?rs) (snd p)"
    by (simp add: valid_id_def)
  have h3: "Numeric (int 2 + 1) \<notin> fst ` set ?d \<and> Numeric (int 2 + 1) \<notin> snd ` set ?d" by simp
  have h4: "distinct ?ss" by simp
  from yoke_resolves_every_roi[OF h1 h2, of "[]" "\<lparr>n_trackers = 0, stim_tracker = Map.empty\<rparr>"]
  obtain m :: "(unit, unit, unit) monitor" and h' where
    r: "Monitor_init [] (Some ?rs) (Some ?ss) (YokeDict ?d) \<lparr>n_trackers = 0, stim_tracker = Map.empty\<rparr> = Inr (m, h')"
    and l: "length (unit_trackers m) = length ?rs"
    and f: "\<forall>i < length ?rs. tu_roi (unit_trackers m ! i) = ?rs ! i \<and>
                             tu_stimulator (unit_trackers m ! i) = Some (?ss ! i)"
    and o: "\<forall>i < length ?rs. Numeric (int i + 1) \<notin> fst ` set ?d \<and> Numeric (int i + 1) \<notin> snd ` set ?d \<longrightarrow>
              distinct ?ss \<longrightarrow>
              stim_tracker h' (?ss ! i) = Some (tu_tracker (unit_trackers m ! i))"
    by blast
  have two: "(2 :: nat) < length ?rs" by simp
  have f2: "tu_roi (unit_trackers m ! 2) = \<lparr>idx = 3, geometry = ()\<rparr> \<and>
            tu_stimulator (unit_trackers m ! 2) = Some 12"
    using f[rule_format, OF two] by simp
  have o2: "stim_tracker h' 12 = Some (tu_tracker (unit_trackers m ! 2))"
    using o[rule_format, OF two h3 h4] by simp
  have l3: "length (unit_trackers m) = 3" using l by simp
  have ex: "\<exists>m h'. (Monitor_init [] (Some ?rs) (Some ?ss) (YokeDict ?d)
               \<lparr>n_trackers = 0, stim_tracker = Map.empty\<rparr>
             :: (error \<times> heap) + ((unit, unit, unit) monitor \<times> heap)) = Inr (m, h') \<and>
           length (unit_trackers m) = 3 \<and>
           tu_roi (unit_trackers m ! 2) = \<lparr>idx = 3, geometry = ()\<rparr> \<and>
           tu_stimulator (unit_trackers m ! 2) = Some 12 \<and>
           stim_tracker h' 12 = Some (tu_tracker (unit_trackers m ! 2))"
    using r l3 f2 o2 by blast
  have g2: "valid_id 3 (Numeric 2) \<and> valid_id 3 (Numeric 1)"
    by (simp add: valid_id_def)
  have g3: "Numeric 3 \<notin> fst ` set ?d \<and> Numeric 3 \<notin> snd ` set ?d" by simp
  show ?thesis using h1 g2 g3 h4 ex by blast
qed

lemma unchained_pair_observes_focal_example:
  "length [10, 11, 12 :: nat] = length [\<lparr>idx = 1, geometry = ()\<rparr>, \<lparr>idx = 2, geometry = ()\<rparr>, \<lparr>idx = 3, geometry = ()\<rparr>] \<and>
   valid_id 3 (Numeric 2) \<and> valid_id 3 (Numeric 1) \<and>
   distinct [10, 11, 12 :: nat] \<and> distinct (map fst [(Numeric 2, Numeric 1)]) \<and>
   (Numeric 2, Numeric 1) \<in> set [(Numeric 2, Numeric 1)] \<and>
   Numeric 1 \<notin> fst ` set [(Numeric 2, Numeric 1)] \<and>
   (\<exists>m h'. (Monitor_init [] (Some [\<lparr>idx = 1, geometry = ()\<rparr>, \<lparr>idx = 2, geometry = ()\<rparr>, \<lparr>idx = 3, geometry = ()\<rparr>])
               (Some [10, 11, 12]) (YokeDict [(Numeric 2, Numeric 1)])
               \<lparr>n_trackers = 0, stim_tracker = Map.empty\<rparr>
             :: (error \<times> heap) + ((unit, unit, unit) monitor \<times> heap)) = Inr (m, h') \<and>
           tu_roi (unit_trackers m ! 1) = \<lparr>idx = 2, geometry = ()\<rparr> \<and>
           tu_stimulator (unit_trackers m ! 1) = Some 11 \<and>
           stim_tracker h' 11 = Some (tu_tracker (unit_trackers m ! 0)) \<and>
           tu_tracker (unit_trackers m ! 0) \<noteq> tu_tracker (unit_trackers m ! 1))"
proof -
  let ?rs = "[\<lparr>idx = 1, geometry = ()\<rparr>, \<lparr>idx = 2, geometry = ()\<rparr>, \<lparr>idx = 3, geometry = ()\<rparr>] :: unit roi list"
  let ?ss = "[10, 11, 12] :: nat list"
  let ?d = "[(Numeric 2, Numeric 1)]"
  have h1: "length ?ss = length ?rs" by simp
  have h2: "\<forall>p \<in> set ?d. valid_id (length ?rs) (fst p) \<and> valid_id (length ?rs) (snd p)"
    by (simp add: valid_id_def)
  have h3: "distinct ?ss" by simp
  have h4: "distinct (map fst ?d)" by simp
  have h5: "(Numeric 2, Numeric 1) \<in> set ?d" by simp
  have h6: "Numeric 1 \<notin> fst ` set ?d" by simp
  from unchained_pair_observes_focal[OF h1 h2 h3 h4 h5 h6, of "[]" "\<lparr>n_trackers = 0, stim_tracker = Map.empty\<rparr>"]
  obtain m :: "(unit, unit, unit) monitor" and h' where
    r: "Monitor_init [] (Some ?rs) (Some ?ss) (YokeDict ?d) \<lparr>n_trackers = 0, stim_tracker = Map.empty\<rparr> = Inr (m, h')"
    and a: "tu_roi (unit_trackers m ! nat (2 - 1)) = ?rs ! nat (2 - 1)"
    and b: "tu_stimulator (unit_trackers m ! nat (2 - 1)) = Some (?ss ! nat (2 - 1))"
    and c: "stim_tracker h' (?ss ! nat (2 - 1)) = Some (tu_tracker (unit_trackers m ! nat (1 - 1)))"
    and e: "tu_tracker (unit_trackers m ! nat (1 - 1)) \<noteq> tu_tracker (unit_trackers m ! nat (2 - 1))"
    by blast
  have ex: "\<exists>m h'. (Monitor_init [] (Some ?rs) (Some ?ss) (YokeDict ?d)
               \<lparr>n_trackers = 0, stim_tracker = Map.empty\<rparr>
             :: (error \<times> heap) + ((unit, unit, unit) monitor \<times> heap)) = Inr (m, h') \<and>
           tu_roi (unit_trackers m ! 1) = \<lparr>idx = 2, geometry = ()\<rparr> \<and>
           tu_stimulator (unit_trackers m ! 1) = Some 11 \<and>
           stim_tracker h' 11 = Some (tu_tracker (unit_trackers m ! 0)) \<and>
           tu_tracker (unit_trackers m ! 0) \<noteq> tu_tracker (unit_trackers m ! 1)"
    using r a b c e by (intro exI[of _ m] exI[of _ h']) simp
  have g2: "valid_id 3 (Numeric 2) \<and> valid_id 3 (Numeric 1)"
    by (simp add: valid_id_def)
  show ?thesis using h1 g2 h3 h4 h5 h6 ex by blast
qed


end
